theory Spec2Isabelle
  imports Complex_Main "HOL-Library.Multiset"
begin

section \<open>Heat map scale\<close>

text \<open>
  \<^verbatim>\<open>heatLevel(count, max)\<close> of \<^verbatim>\<open>app.js\<close> divides two JavaScript numbers. The counts
  are integers; the quotient is modelled exactly (a rational), and the three outcomes
  JavaScript has for a zero divisor are kept apart: \<^verbatim>\<open>c / 0\<close> is \<^verbatim>\<open>Infinity\<close>,
  \<^verbatim>\<open>-Infinity\<close> or \<^verbatim>\<open>NaN\<close>. HOL's own \<open>x / 0 = 0\<close> is never used.
\<close>

datatype js_number = Finite rat | PosInfinity | NegInfinity | NaN

definition js_div :: "int \<Rightarrow> int \<Rightarrow> js_number" where
  "js_div a b =
     (if b = 0
      then (if 0 < a then PosInfinity else if a < 0 then NegInfinity else NaN)
      else Finite (of_int a / of_int b))"

text \<open>\<^verbatim>\<open>x < c\<close> for a finite constant \<open>c\<close>: every comparison with \<^verbatim>\<open>NaN\<close> is false.\<close>

fun js_less :: "js_number \<Rightarrow> rat \<Rightarrow> bool" where
  "js_less (Finite q) c = (q < c)"
| "js_less PosInfinity c = False"
| "js_less NegInfinity c = True"
| "js_less NaN c = False"

definition heatLevel :: "int \<Rightarrow> int \<Rightarrow> nat" where
  "heatLevel cnt mx =
     (if cnt = 0 then 0
      else let ratio = js_div cnt mx in
        if js_less ratio (15 / 100) then 1
        else if js_less ratio (40 / 100) then 2
        else if js_less ratio (70 / 100) then 3
        else 4)"

section \<open>Category filter\<close>

text \<open>
  A chapter entry of the index: its number, its unconditional total \<^verbatim>\<open>count\<close>, and the
  optional object \<^verbatim>\<open>by_cat\<close> (category to count). An object's own keys are kept in
  insertion order, so \<^verbatim>\<open>Object.entries\<close> is an association list; \<open>None\<close> stands for
  a missing (or null) \<^verbatim>\<open>by_cat\<close>, the old JSON format. The set of checked categories is
  a JavaScript \<^verbatim>\<open>Set\<close> of strings.
\<close>

record chapter_entry =
  ch_number :: nat
  ch_count :: int
  by_cat :: "(string \<times> int) list option"

definition filteredCount :: "chapter_entry \<Rightarrow> string set \<Rightarrow> int" where
  "filteredCount ch cats =
     (case by_cat ch of
        None \<Rightarrow> ch_count ch
      | Some entries \<Rightarrow>
          fold (\<lambda>(cat, n) total. if cat \<in> cats then total + n else total) entries 0)"

subsection \<open>Properties of the heat map scale\<close>

lemma heatLevel_zero_iff: "heatLevel cnt mx = 0 \<longleftrightarrow> cnt = 0"
  by (simp add: heatLevel_def Let_def)

lemma heatLevel_finite:
  assumes "cnt \<noteq> 0" and "mx \<noteq> 0" and "(q::rat) = of_int cnt / of_int mx"
  shows "heatLevel cnt mx =
     (if q < 15 / 100 then 1 else if q < 40 / 100 then 2 else if q < 70 / 100 then 3 else 4)"
  using assms by (simp only: heatLevel_def js_div_def Let_def js_less.simps if_False)

text \<open>
  Claim C6. \<open>heatLevel 0 mx = 0\<close> for every \<open>mx\<close>, and 0 is returned only for a zero
  count. For a positive count and a divisor other than zero, with
  \<open>ratio = count / mx\<close>: the level is 1 for a ratio in \<open>[0, 0.15)\<close>, 2 in
  \<open>[0.15, 0.40)\<close>, 3 in \<open>[0.40, 0.70)\<close> and 4 in \<open>[0.70, 1]\<close>; the lower bounds are
  closed, so the exact boundary ratios fall in the higher bucket.
\<close>

theorem heatLevel_buckets:
  "heatLevel 0 mx = 0 \<and>
   (heatLevel cnt mx = 0 \<longrightarrow> cnt = 0) \<and>
   (0 < cnt \<and> mx \<noteq> 0 \<longrightarrow>
      (0 \<le> (of_int cnt / of_int mx :: rat) \<and> (of_int cnt / of_int mx :: rat) < 15 / 100
          \<longrightarrow> heatLevel cnt mx = 1) \<and>
      (15 / 100 \<le> (of_int cnt / of_int mx :: rat) \<and> (of_int cnt / of_int mx :: rat) < 40 / 100
          \<longrightarrow> heatLevel cnt mx = 2) \<and>
      (40 / 100 \<le> (of_int cnt / of_int mx :: rat) \<and> (of_int cnt / of_int mx :: rat) < 70 / 100
          \<longrightarrow> heatLevel cnt mx = 3) \<and>
      (70 / 100 \<le> (of_int cnt / of_int mx :: rat) \<and> (of_int cnt / of_int mx :: rat) \<le> 1
          \<longrightarrow> heatLevel cnt mx = 4))"
proof -
  define q :: rat where "q = of_int cnt / of_int mx"
  have level: "heatLevel cnt mx =
      (if q < 15 / 100 then 1 else if q < 40 / 100 then 2 else if q < 70 / 100 then 3 else 4)"
    if "0 < cnt \<and> mx \<noteq> 0"
  proof -
    from that have "cnt \<noteq> 0" and "mx \<noteq> 0" by simp_all
    then show ?thesis using q_def by (rule heatLevel_finite)
  qed
  have zero: "heatLevel 0 mx = 0"
    by (simp add: heatLevel_def)
  have only_zero: "heatLevel cnt mx = 0 \<longrightarrow> cnt = 0"
    by (simp add: heatLevel_zero_iff)
  have b1: "0 \<le> q \<and> q < 15 / 100 \<longrightarrow> heatLevel cnt mx = 1" if "0 < cnt \<and> mx \<noteq> 0"
    using level [OF that] by simp
  have b2: "15 / 100 \<le> q \<and> q < 40 / 100 \<longrightarrow> heatLevel cnt mx = 2" if "0 < cnt \<and> mx \<noteq> 0"
    using level [OF that] by simp
  have b3: "40 / 100 \<le> q \<and> q < 70 / 100 \<longrightarrow> heatLevel cnt mx = 3" if "0 < cnt \<and> mx \<noteq> 0"
    using level [OF that] by simp
  have b4: "70 / 100 \<le> q \<and> q \<le> 1 \<longrightarrow> heatLevel cnt mx = 4" if "0 < cnt \<and> mx \<noteq> 0"
    using level [OF that] by simp
  from zero only_zero b1 b2 b3 b4 show ?thesis
    unfolding q_def by blast
qed

text \<open>
  The theorem at 3 of 20, 8 of 20, 14 of 20 (the exact boundary ratios 0.15, 0.40 and
  0.70) and at 1 of 20 and 20 of 20.
\<close>

theorem heatLevel_buckets_witness:
  "heatLevel 0 20 = 0 \<and> heatLevel 1 20 = 1 \<and> heatLevel 3 20 = 2 \<and> heatLevel 8 20 = 3 \<and>
   heatLevel 14 20 = 4 \<and> heatLevel 20 20 = 4"
  using heatLevel_buckets [where mx = 20 and cnt = 1]
    heatLevel_buckets [where mx = 20 and cnt = 3]
    heatLevel_buckets [where mx = 20 and cnt = 8]
    heatLevel_buckets [where mx = 20 and cnt = 14]
    heatLevel_buckets [where mx = 20 and cnt = 20]
  by simp

subsection \<open>Properties of the category filter\<close>

text \<open>
  What a per-category breakdown gives one category: its count, and 0 for a category the
  breakdown does not list.
\<close>

definition byCatOf :: "(string \<times> int) list \<Rightarrow> string \<Rightarrow> int" where
  "byCatOf entries c = (case map_of entries c of None \<Rightarrow> 0 | Some n \<Rightarrow> n)"

lemma fold_filtered:
  "fold (\<lambda>(cat, n) total. if cat \<in> cats then total + n else total) entries (a::int) =
     a + sum_list (map snd (filter (\<lambda>e. fst e \<in> cats) entries))"
  by (induction entries arbitrary: a) (auto simp: case_prod_beta)

lemma sum_list_filtered_lookup:
  assumes "distinct (map fst entries)" and "finite cats"
  shows "sum_list (map snd (filter (\<lambda>e. fst e \<in> cats) entries)) = (\<Sum>c\<in>cats. byCatOf entries c)"
  using assms
proof (induction entries)
  case Nil
  then show ?case by (simp add: byCatOf_def)
next
  case (Cons e es)
  obtain k n where e: "e = (k, n)" by (cases e)
  from Cons.prems e have fresh: "map_of es k = None"
    by (simp add: map_of_eq_None_iff)
  have split: "byCatOf (e # es) c = (if c = k then n else 0) + byCatOf es c" for c
    using fresh by (simp add: byCatOf_def e)
  have "(\<Sum>c\<in>cats. byCatOf (e # es) c) =
      (\<Sum>c\<in>cats. if c = k then n else 0) + (\<Sum>c\<in>cats. byCatOf es c)"
    by (simp add: split sum.distrib)
  also have "(\<Sum>c\<in>cats. if c = k then n else 0) = (if k \<in> cats then n else 0)"
    using Cons.prems(2) by (simp add: sum.delta)
  finally show ?case
    using Cons e by simp
qed

lemma filter_all_active:
  "fst ` set entries \<subseteq> cats \<Longrightarrow> filter (\<lambda>e. fst e \<in> cats) entries = entries"
  by (induction entries) auto

text \<open>
  Claim C3. For a chapter with a per-category breakdown \<open>entries\<close> (an object: its keys
  are distinct) and a finite set of active categories, \<open>filteredCount\<close> is the sum over
  the active categories of the chapter's per-category counts, an absent category
  counting 0; when every category of the breakdown is active it is the sum of all the
  per-category counts, and for the empty set it is 0. A chapter without a breakdown
  gives its unconditional total.
\<close>

theorem filteredCount_sum:
  "(by_cat ch = Some entries \<and> distinct (map fst entries) \<and> finite cats \<longrightarrow>
      filteredCount ch cats = (\<Sum>c\<in>cats. byCatOf entries c)) \<and>
   (by_cat ch = Some entries \<and> fst ` set entries \<subseteq> cats \<longrightarrow>
      filteredCount ch cats = sum_list (map snd entries)) \<and>
   (by_cat ch = Some entries \<longrightarrow> filteredCount ch {} = 0) \<and>
   (by_cat ch = None \<longrightarrow> filteredCount ch cats = ch_count ch)"
proof (intro conjI impI)
  assume h: "by_cat ch = Some entries \<and> distinct (map fst entries) \<and> finite cats"
  then have "filteredCount ch cats = sum_list (map snd (filter (\<lambda>e. fst e \<in> cats) entries))"
    by (simp add: filteredCount_def fold_filtered)
  with h show "filteredCount ch cats = (\<Sum>c\<in>cats. byCatOf entries c)"
    by (simp add: sum_list_filtered_lookup)
next
  assume h: "by_cat ch = Some entries \<and> fst ` set entries \<subseteq> cats"
  then have "filteredCount ch cats = sum_list (map snd (filter (\<lambda>e. fst e \<in> cats) entries))"
    by (simp add: filteredCount_def fold_filtered)
  with h show "filteredCount ch cats = sum_list (map snd entries)"
    by (simp add: filter_all_active)
next
  assume "by_cat ch = Some entries"
  then show "filteredCount ch {} = 0"
    using fold_filtered [of "{}" entries 0] by (simp add: filteredCount_def)
next
  assume "by_cat ch = None"
  then show "filteredCount ch cats = ch_count ch"
    by (simp add: filteredCount_def)
qed

text \<open>
  The theorem at a chapter with 4 citations by one category and 6 by another, filtered
  by the first category, by both and by none, and at a chapter of the old format.
\<close>

theorem filteredCount_sum_witness:
  "filteredCount \<lparr>ch_number = 3, ch_count = 10,
       by_cat = Some [(''Fathers'', 4), (''Reformers'', 6)]\<rparr> {''Fathers'', ''Medieval''} = 4 \<and>
   filteredCount \<lparr>ch_number = 3, ch_count = 10,
       by_cat = Some [(''Fathers'', 4), (''Reformers'', 6)]\<rparr> {''Fathers'', ''Reformers''} = 10 \<and>
   filteredCount \<lparr>ch_number = 3, ch_count = 10,
       by_cat = Some [(''Fathers'', 4), (''Reformers'', 6)]\<rparr> {} = 0 \<and>
   filteredCount \<lparr>ch_number = 3, ch_count = 10, by_cat = None\<rparr> {''Fathers''} = 10"
  using
    filteredCount_sum [where ch = "\<lparr>ch_number = 3, ch_count = 10,
        by_cat = Some [(''Fathers'', 4), (''Reformers'', 6)]\<rparr>"
      and entries = "[(''Fathers'', 4), (''Reformers'', 6)]" and cats = "{''Fathers'', ''Medieval''}"]
    filteredCount_sum [where ch = "\<lparr>ch_number = 3, ch_count = 10,
        by_cat = Some [(''Fathers'', 4), (''Reformers'', 6)]\<rparr>"
      and entries = "[(''Fathers'', 4), (''Reformers'', 6)]" and cats = "{''Fathers'', ''Reformers''}"]
    filteredCount_sum [where ch = "\<lparr>ch_number = 3, ch_count = 10, by_cat = None\<rparr>"
      and entries = "[]" and cats = "{''Fathers''}"]
  by (simp add: byCatOf_def)

section \<open>JavaScript strings, numbers in strings, and maps\<close>

text \<open>
  A JavaScript string is modelled as a \<open>string\<close>, a list of code units; the model covers
  the code units up to 255. The character classes are the ones the regular expressions
  of \<^verbatim>\<open>app.js\<close> use: \<^verbatim>\<open>\d\<close> is the ten ASCII digits, \<^verbatim>\<open>\s\<close> (and the white space
  \<^verbatim>\<open>trim\<close> and \<^verbatim>\<open>parseInt\<close> skip) is TAB, LF, VT, FF, CR, SPACE and NBSP in that range,
  and \<^verbatim>\<open>\w\<close> is the ASCII letters, the digits and the underscore.
\<close>

definition isDigit :: "char \<Rightarrow> bool" where
  "isDigit c = (c \<in> set ''0123456789'')"

definition isUpper :: "char \<Rightarrow> bool" where
  "isUpper c = (c \<in> set ''ABCDEFGHIJKLMNOPQRSTUVWXYZ'')"

definition isLower :: "char \<Rightarrow> bool" where
  "isLower c = (c \<in> set ''abcdefghijklmnopqrstuvwxyz'')"

definition isSpace :: "char \<Rightarrow> bool" where
  "isSpace c = (c \<in> {CHR 0x09, CHR 0x0A, CHR 0x0B, CHR 0x0C, CHR 0x0D, CHR '' '', CHR 0xA0})"

definition isWord :: "char \<Rightarrow> bool" where
  "isWord c = (isDigit c \<or> isUpper c \<or> isLower c \<or> c = CHR ''_'')"

definition digitVal :: "char \<Rightarrow> nat" where
  "digitVal c = of_char c - 48"

definition digitsVal :: "string \<Rightarrow> nat" where
  "digitsVal ds = fold (\<lambda>c acc. acc * 10 + digitVal c) ds 0"

text \<open>
  \<^verbatim>\<open>parseInt(s, 10)\<close>: leading white space is skipped, one sign is read, then the longest
  run of digits; with no digit the result is \<^verbatim>\<open>NaN\<close>, here \<open>None\<close>.
\<close>

definition parseInt :: "string \<Rightarrow> int option" where
  "parseInt s =
     (let t = dropWhile isSpace s;
          neg = (t \<noteq> [] \<and> hd t = CHR ''-'');
          u = (if t \<noteq> [] \<and> (hd t = CHR ''-'' \<or> hd t = CHR ''+'') then tl t else t);
          ds = takeWhile isDigit u
      in if ds = [] then None
         else Some (if neg then - int (digitsVal ds) else int (digitsVal ds)))"

text \<open>
  A JavaScript \<^verbatim>\<open>Map\<close> keeps its keys in insertion order: an association list with
  distinct keys. \<^verbatim>\<open>m.get(k)\<close> is \<open>map_of m k\<close>, \<^verbatim>\<open>m.has(k)\<close> is \<open>map_of m k \<noteq> None\<close>,
  and \<^verbatim>\<open>m.set(k, v)\<close> replaces the value of a key in place or appends a new key.
\<close>

fun map_set :: "('k \<times> 'v) list \<Rightarrow> 'k \<Rightarrow> 'v \<Rightarrow> ('k \<times> 'v) list" where
  "map_set [] k v = [(k, v)]"
| "map_set ((k', v') # m) k v = (if k' = k then (k, v) # m else (k', v') # map_set m k v)"

section \<open>Verse grouping\<close>

text \<open>
  A work of the index (the fields the modelled functions read: \<^verbatim>\<open>id\<close>, \<^verbatim>\<open>year\<close> and
  \<^verbatim>\<open>category\<close>, the last two optional) and a citation of a chapter (\<^verbatim>\<open>w\<close> the work id,
  \<^verbatim>\<open>v\<close> the verse locator or null, \<^verbatim>\<open>p\<close> the passage id).
\<close>

record work =
  work_id :: nat
  year :: "int option"
  category :: "string option"


text \<open>\<^verbatim>\<open>work.category || "Other"\<close>: a missing and an empty category are both falsy.\<close>

definition categoryOf :: "work \<Rightarrow> string" where
  "categoryOf wk = (case category wk of None \<Rightarrow> ''Other'' | Some c \<Rightarrow> if c = [] then ''Other'' else c)"




text \<open>
  The comparator \<^verbatim>\<open>(a, b) => parseInt(a, 10) - parseInt(b, 10)\<close>; a \<^verbatim>\<open>NaN\<close> result is
  read by \<^verbatim>\<open>sort\<close> as 0.
\<close>

definition verseCompare :: "string \<Rightarrow> string \<Rightarrow> int" where
  "verseCompare a b =
     (case parseInt a of
        None \<Rightarrow> 0
      | Some x \<Rightarrow> (case parseInt b of None \<Rightarrow> 0 | Some y \<Rightarrow> x - y))"

text \<open>
  \<^verbatim>\<open>Array.prototype.sort\<close> with a comparator. ECMAScript fixes the result for a
  consistent comparator only (the stable sort); for any other it leaves the order to the
  engine. The model is the sort of V8, the engine of Chrome and Node, for an array of
  fewer than 64 elements: \<^verbatim>\<open>CountAndMakeRun\<close> finds the run the array starts with,
  strictly descending when the second element compares below the first (it is then
  reversed) and non-descending otherwise, and \<^verbatim>\<open>BinaryInsertionSort\<close> puts every later
  element into the sorted part, by a binary search for the first place whose element the
  new one compares below. (From 64 elements on V8 merges several such runs; for a
  consistent comparator the result is the same stable sort.)
\<close>

fun runExtend :: "('a \<Rightarrow> 'a \<Rightarrow> int) \<Rightarrow> bool \<Rightarrow> 'a \<Rightarrow> 'a list \<Rightarrow> 'a list \<times> 'a list" where
  "runExtend cmp isDescending previous [] = ([], [])"
| "runExtend cmp isDescending previous (current # later) =
     (if (if isDescending then cmp current previous \<ge> 0 else cmp current previous < 0)
      then ([], current # later)
      else (case runExtend cmp isDescending current later of
              (run, todo) \<Rightarrow> (current # run, todo)))"

fun countAndMakeRun :: "('a \<Rightarrow> 'a \<Rightarrow> int) \<Rightarrow> 'a list \<Rightarrow> 'a list \<times> 'a list" where
  "countAndMakeRun cmp [] = ([], [])"
| "countAndMakeRun cmp [x] = ([x], [])"
| "countAndMakeRun cmp (elementHigh # elementLow # later) =
     (let isDescending = (cmp elementLow elementHigh < 0) in
      case runExtend cmp isDescending elementLow later of
        (run, todo) \<Rightarrow>
          (if isDescending then rev (elementHigh # elementLow # run)
           else elementHigh # elementLow # run, todo))"

function binarySearch :: "('a \<Rightarrow> 'a \<Rightarrow> int) \<Rightarrow> 'a \<Rightarrow> 'a list \<Rightarrow> nat \<Rightarrow> nat \<Rightarrow> nat" where
  "binarySearch cmp pivot work left right =
     (if left < right then
        (if cmp pivot (work ! (left + (right - left) div 2)) < 0
         then binarySearch cmp pivot work left (left + (right - left) div 2)
         else binarySearch cmp pivot work (left + (right - left) div 2 + 1) right)
      else left)"
  by pat_completeness auto
termination
  by (relation "measure (\<lambda>(cmp, pivot, work, left, right). right - left)") auto

declare binarySearch.simps [simp del]

definition binaryInsert :: "('a \<Rightarrow> 'a \<Rightarrow> int) \<Rightarrow> 'a \<Rightarrow> 'a list \<Rightarrow> 'a list" where
  "binaryInsert cmp pivot work =
     (let left = binarySearch cmp pivot work 0 (length work)
      in take left work @ pivot # drop left work)"

definition js_sort :: "('a \<Rightarrow> 'a \<Rightarrow> int) \<Rightarrow> 'a list \<Rightarrow> 'a list" where
  "js_sort cmp xs =
     (case countAndMakeRun cmp xs of (run, todo) \<Rightarrow> fold (binaryInsert cmp) todo run)"



subsection \<open>Properties of the verse grouping\<close>



lemma map_of_map_set: "map_of (map_set m k v) k' = (if k' = k then Some v else map_of m k')"
  by (induction m) auto





















text \<open>
  Two arrays of keys, one of them not a number: the comparator is not consistent, and
  the result is the engine's. In the first the run is the whole array; in the second
  the run \<^verbatim>\<open>3, 1\<close> is reversed, \<^verbatim>\<open>abc\<close> is put after it and \<^verbatim>\<open>2\<close> between \<^verbatim>\<open>1\<close> and \<^verbatim>\<open>3\<close>.
\<close>

lemma js_sort_not_a_number:
  "js_sort verseCompare [''2'', ''abc'', ''1''] = [''2'', ''abc'', ''1''] \<and>
   js_sort verseCompare [''3'', ''1'', ''abc'', ''2''] = [''1'', ''2'', ''3'', ''abc'']"
  by code_simp









section \<open>Passage highlighter\<close>

text \<open>
  \<^verbatim>\<open>esc(str)\<close>: four \<^verbatim>\<open>replace\<close> passes with a global pattern, in the source's order.
\<close>

definition replaceAll :: "char \<Rightarrow> string \<Rightarrow> string \<Rightarrow> string" where
  "replaceAll c r str = concat (map (\<lambda>x. if x = c then r else [x]) str)"

definition esc :: "string \<Rightarrow> string" where
  "esc str =
     (if str = [] then []
      else replaceAll (CHR 0x22) ''&quot;''
             (replaceAll CHR ''>'' ''&gt;''
               (replaceAll CHR ''<'' ''&lt;''
                 (replaceAll CHR ''&'' ''&amp;'' str))))"

text \<open>
  \<^verbatim>\<open>toRoman(n)\<close>: for each table entry in turn, the symbol is appended while the entry's
  value fits. Every value of the table is positive; the guard \<open>0 < v\<close> says so to the
  termination proof.
\<close>

fun toRomanFrom :: "(nat \<times> string) list \<Rightarrow> nat \<Rightarrow> string" where
  "toRomanFrom [] n = []"
| "toRomanFrom ((v, sy) # tab) n =
     (if 0 < v \<and> v \<le> n then sy @ toRomanFrom ((v, sy) # tab) (n - v)
      else toRomanFrom tab n)"

definition toRoman :: "nat \<Rightarrow> string" where
  "toRoman n =
     toRomanFrom
       (zip [100, 90, 50, 40, 10, 9, 5, 4, 1]
            [''c'', ''xc'', ''l'', ''xl'', ''x'', ''ix'', ''v'', ''iv'', ''i'']) n"

text \<open>\<^verbatim>\<open>String(chapter)\<close> for a chapter number: its decimal digits.\<close>

definition digitChar :: "nat \<Rightarrow> char" where
  "digitChar d = ''0123456789'' ! (d mod 10)"

fun showNat :: "nat \<Rightarrow> string" where
  "showNat n = (if n < 10 then [digitChar n] else showNat (n div 10) @ [digitChar (n mod 10)])"

declare showNat.simps [simp del]

text \<open>\<^verbatim>\<open>String(verseKey).split(/[-,]/)[0].trim()\<close>.\<close>

definition trim :: "string \<Rightarrow> string" where
  "trim str = rev (dropWhile isSpace (rev (dropWhile isSpace str)))"

definition verseStartOf :: "string \<Rightarrow> string" where
  "verseStartOf verseKey = trim (takeWhile (\<lambda>c. c \<noteq> CHR ''-'' \<and> c \<noteq> CHR '','') verseKey)"

text \<open>
  The regular expression \<^verbatim>\<open>(?:ch|roman)\s*[.:\s]+verseStart\b\<close> with the flag \<^verbatim>\<open>i\<close>.
  Its literals are ASCII digits and letters, so ignoring case is comparing ASCII upper
  case. \<open>verseStart\<close> is a non-empty run of digits where the expression is built, so the
  separators \<^verbatim>\<open>\s*[.:\s]+\<close> are the whole non-empty run of separator characters before
  it, and \<^verbatim>\<open>\b\<close> after its last digit asks for the end of the text or a character
  outside \<^verbatim>\<open>\w\<close>. The first alternative is tried first.
\<close>

definition toUpperChar :: "char \<Rightarrow> char" where
  "toUpperChar c =
     (case map_of (zip ''abcdefghijklmnopqrstuvwxyz'' ''ABCDEFGHIJKLMNOPQRSTUVWXYZ'') c of
        None \<Rightarrow> c
      | Some u \<Rightarrow> u)"

definition stripCI :: "string \<Rightarrow> string \<Rightarrow> string option" where
  "stripCI pat t =
     (if length pat \<le> length t \<and> map toUpperChar (take (length pat) t) = map toUpperChar pat
      then Some (drop (length pat) t) else None)"

definition sepChar :: "char \<Rightarrow> bool" where
  "sepChar c = (c = CHR ''.'' \<or> c = CHR '':'' \<or> isSpace c)"

definition matchAlt :: "string \<Rightarrow> string \<Rightarrow> string \<Rightarrow> nat option" where
  "matchAlt alt verseStart t =
     (case stripCI alt t of
        None \<Rightarrow> None
      | Some r \<Rightarrow>
          let seps = takeWhile sepChar r in
          if seps = [] then None
          else (case stripCI verseStart (dropWhile sepChar r) of
                  None \<Rightarrow> None
                | Some r' \<Rightarrow>
                    if r' = [] \<or> \<not> isWord (hd r')
                    then Some (length alt + length seps + length verseStart)
                    else None))"

definition matchHere :: "string \<Rightarrow> string \<Rightarrow> string \<Rightarrow> string \<Rightarrow> nat option" where
  "matchHere ch roman verseStart t =
     (case matchAlt ch verseStart t of
        Some n \<Rightarrow> Some n
      | None \<Rightarrow> matchAlt roman verseStart t)"

text \<open>
  \<^verbatim>\<open>re.exec(text)\<close>: the leftmost position with a match; the result is \<^verbatim>\<open>m.index\<close> and
  \<^verbatim>\<open>m[0].length\<close>.
\<close>

fun execFrom :: "string \<Rightarrow> string \<Rightarrow> string \<Rightarrow> string \<Rightarrow> nat \<Rightarrow> (nat \<times> nat) option" where
  "execFrom ch roman verseStart [] i =
     (case matchHere ch roman verseStart [] of Some n \<Rightarrow> Some (i, n) | None \<Rightarrow> None)"
| "execFrom ch roman verseStart (c # cs) i =
     (case matchHere ch roman verseStart (c # cs) of
        Some n \<Rightarrow> Some (i, n)
      | None \<Rightarrow> execFrom ch roman verseStart cs (Suc i))"

definition reExec :: "string \<Rightarrow> string \<Rightarrow> string \<Rightarrow> string \<Rightarrow> (nat \<times> nat) option" where
  "reExec ch roman verseStart text = execFrom ch roman verseStart text 0"

text \<open>
  \<^verbatim>\<open>text[i]\<close> is \<^verbatim>\<open>undefined\<close> outside the string: \<open>None\<close>.
  \<^verbatim>\<open>/^\s+[A-Z"(\[]/.test(t)\<close> is \<open>sentenceFollows t\<close>.
\<close>

definition charAt :: "string \<Rightarrow> nat \<Rightarrow> char option" where
  "charAt text i = (if i < length text then Some (text ! i) else None)"

definition isTerminator :: "char option \<Rightarrow> bool" where
  "isTerminator c = (c = Some CHR ''.'' \<or> c = Some CHR ''!'' \<or> c = Some CHR ''?'')"

definition sentenceFollows :: "string \<Rightarrow> bool" where
  "sentenceFollows t =
     (let r = dropWhile isSpace t in
      takeWhile isSpace t \<noteq> [] \<and> r \<noteq> [] \<and>
      (isUpper (hd r) \<or> hd r = CHR 0x22 \<or> hd r = CHR ''('' \<or> hd r = CHR ''[''))"

text \<open>The backward scan for the sentence start, from \<open>s = m.index\<close>.\<close>

fun scanBack :: "string \<Rightarrow> nat \<Rightarrow> nat" where
  "scanBack text 0 = 0"
| "scanBack text (Suc k) =
     (if charAt text k = Some (CHR 0x0A) \<and> (Suc k < 2 \<or> charAt text (k - 1) = Some (CHR 0x0A))
      then Suc k
      else if isTerminator (charAt text k) \<and> sentenceFollows (drop (Suc k) text) then Suc k
      else scanBack text k)"

text \<open>\<^verbatim>\<open>while (s < m.index && text[s] === ' ') s++\<close>.\<close>

function skipSpaces :: "string \<Rightarrow> nat \<Rightarrow> nat \<Rightarrow> nat" where
  "skipSpaces text s idx =
     (if s < idx \<and> charAt text s = Some CHR '' '' then skipSpaces text (Suc s) idx else s)"
  by pat_completeness auto
termination
  by (relation "measure (\<lambda>(text, s, idx). idx - s)") auto

declare skipSpaces.simps [simp del]

text \<open>
  The forward scan for the sentence end, from \<open>e = m.index + m[0].length\<close>;
  \<^verbatim>\<open>rest\<close> is the text after the terminator without leading closing quotes and brackets.
\<close>

definition isCloser :: "char \<Rightarrow> bool" where
  "isCloser c = (c = CHR 0x27 \<or> c = CHR 0x22 \<or> c = CHR '')'' \<or> c = CHR '']'')"

function scanFwd :: "string \<Rightarrow> nat \<Rightarrow> nat" where
  "scanFwd text e =
     (if e < length text then
        (if charAt text e = Some (CHR 0x0A) \<and> e + 1 < length text \<and>
            charAt text (e + 1) = Some (CHR 0x0A)
         then e + 2
         else if isTerminator (charAt text e) \<and>
                 (let rest = dropWhile isCloser (drop (e + 1) text) in
                  rest = [] \<or> sentenceFollows rest \<or> list_all isSpace rest)
         then e + 1
         else scanFwd text (e + 1))
      else e)"
  by pat_completeness auto
termination
  by (relation "measure (\<lambda>(text, e). length text - e)") auto

declare scanFwd.simps [simp del]

text \<open>
  \<^verbatim>\<open>highlightPassage(text, chapter, verseKey)\<close>. \<open>highlightSpan\<close> is the part that finds
  the offsets \<open>s\<close> and \<open>e\<close> of the sentence (\<open>None\<close> on every path that returns the
  text without a mark); \<open>highlightPassage\<close> is the HTML the function returns. A missing
  passage (\<^verbatim>\<open>undefined\<close>) behaves as the empty text, a null verse key is \<open>None\<close>.
\<close>

definition highlightSpan :: "string \<Rightarrow> nat \<Rightarrow> string option \<Rightarrow> (nat \<times> nat) option" where
  "highlightSpan text chapter verseKey =
     (if text = [] then None
      else case verseKey of
        None \<Rightarrow> None
      | Some vk \<Rightarrow>
          if vk = [] \<or> vk = ''whole'' then None
          else
            let verseStart = verseStartOf vk in
            if verseStart = [] \<or> \<not> list_all isDigit verseStart then None
            else (case reExec (showNat chapter) (toRoman chapter) verseStart text of
                    None \<Rightarrow> None
                  | Some (idx, len) \<Rightarrow>
                      Some (skipSpaces text (scanBack text idx) idx, scanFwd text (idx + len))))"

definition highlightPassage :: "string \<Rightarrow> nat \<Rightarrow> string option \<Rightarrow> string" where
  "highlightPassage text chapter verseKey =
     (if text = [] then []
      else case highlightSpan text chapter verseKey of
        None \<Rightarrow> esc text
      | Some (s, e) \<Rightarrow>
          esc (take s text) @ ''<mark>'' @ esc (drop s (take e text)) @ ''</mark>'' @
          esc (drop e text))"

text \<open>
  The three parts of the passage that \<open>highlightPassage\<close> escapes and joins:
  \<^verbatim>\<open>text.slice(0, s)\<close>, \<^verbatim>\<open>text.slice(s, e)\<close> and \<^verbatim>\<open>text.slice(e)\<close>, and the whole text
  as the prefix where nothing is marked.
\<close>

definition highlight :: "string \<Rightarrow> nat \<Rightarrow> string option \<Rightarrow> string \<times> string \<times> string" where
  "highlight text chapter verseLocator =
     (case highlightSpan text chapter verseLocator of
        None \<Rightarrow> (text, [], [])
      | Some (s, e) \<Rightarrow> (take s text, drop s (take e text), drop e text))"

subsection \<open>The three parts make up the passage\<close>

text \<open>The HTML that is returned is the three parts, escaped, with the mark around the middle one.\<close>

lemma highlight_renders:
  "highlightPassage text chapter verseKey =
     (case highlight text chapter verseKey of
        (pre, highlighted, suf) \<Rightarrow>
          if highlightSpan text chapter verseKey = None then esc pre
          else esc pre @ ''<mark>'' @ esc highlighted @ ''</mark>'' @ esc suf)"
proof (cases "text = []")
  case True
  then have "highlightSpan text chapter verseKey = None"
    by (simp add: highlightSpan_def)
  with True show ?thesis
    by (simp add: highlightPassage_def highlight_def esc_def)
next
  case False
  then show ?thesis
    by (auto simp: highlightPassage_def highlight_def split: option.splits)
qed

lemma scanBack_le: "scanBack text k \<le> k"
  by (induction k) auto

lemma skipSpaces_bounds: "s \<le> skipSpaces t s idx \<and> (s \<le> idx \<longrightarrow> skipSpaces t s idx \<le> idx)"
proof (induction t s idx rule: skipSpaces.induct)
  case (1 t s idx)
  show ?case
  proof (cases "s < idx \<and> charAt t s = Some CHR '' ''")
    case True
    with "1" show ?thesis
      by (subst (1 2) skipSpaces.simps) auto
  next
    case False
    then show ?thesis
      by (subst (1 2) skipSpaces.simps) auto
  qed
qed

lemma scanFwd_ge: "e \<le> scanFwd t e"
proof (induction t e rule: scanFwd.induct)
  case (1 t e)
  define para where "para \<longleftrightarrow> charAt t e = Some (CHR 0x0A) \<and> e + 1 < length t \<and>
            charAt t (e + 1) = Some (CHR 0x0A)"
  define stop where "stop \<longleftrightarrow> isTerminator (charAt t e) \<and>
                 (let rest = dropWhile isCloser (drop (e + 1) t) in
                  rest = [] \<or> sentenceFollows rest \<or> list_all isSpace rest)"
  have unfold: "scanFwd t e =
      (if e < length t then (if para then e + 2 else if stop then e + 1 else scanFwd t (e + 1))
       else e)"
    unfolding para_def stop_def by (rule scanFwd.simps)
  show ?case
  proof (cases "e < length t \<and> \<not> para \<and> \<not> stop")
    case False
    with unfold show ?thesis by auto
  next
    case True
    then have "e + 1 \<le> scanFwd t (e + 1)"
      unfolding para_def stop_def by (intro "1") simp_all
    with True unfold show ?thesis by simp
  qed
qed

lemma slices_join: "s \<le> e \<Longrightarrow> take s text @ drop s (take e text) @ drop e text = text"
proof -
  assume "s \<le> e"
  then have "take s text = take s (take e text)"
    by (simp add: min_def)
  then have "take s text @ drop s (take e text) = take e text"
    by (metis append_take_drop_id)
  then show ?thesis
    by (metis append_assoc append_take_drop_id)
qed

lemma highlightSpan_ordered:
  assumes "highlightSpan text chapter verseKey = Some (s, e)"
  shows "s \<le> e"
proof -
  from assms obtain idx len where
    s: "s = skipSpaces text (scanBack text idx) idx" and e: "e = scanFwd text (idx + len)"
    by (auto simp: highlightSpan_def Let_def split: if_splits option.splits)
  have "s \<le> idx"
    unfolding s using skipSpaces_bounds [of "scanBack text idx" "text" idx] scanBack_le [of "text" idx]
    by simp
  moreover have "idx + len \<le> e"
    unfolding e by (rule scanFwd_ge)
  ultimately show ?thesis by simp
qed

lemma highlightSpan_none:
  "verseLocator = None \<or> verseLocator = Some ''whole'' \<or> text = [] \<Longrightarrow>
     highlightSpan text chapter verseLocator = None"
  by (auto simp: highlightSpan_def)

text \<open>
  Claim C1. For every passage text, chapter and verse locator, the three parts
  \<open>highlight\<close> returns concatenate to the passage text; and when the verse locator is
  null or \<^verbatim>\<open>"whole"\<close>, or the text is empty, the highlighted part is empty and the prefix
  is the whole text.
\<close>

theorem highlight_concat:
  "(case highlight text chapter verseLocator of
      (pre, highlighted, suf) \<Rightarrow> pre @ highlighted @ suf = text) \<and>
   (verseLocator = None \<or> verseLocator = Some ''whole'' \<or> text = [] \<longrightarrow>
      highlight text chapter verseLocator = (text, [], []))"
proof
  show "case highlight text chapter verseLocator of
      (pre, highlighted, suf) \<Rightarrow> pre @ highlighted @ suf = text"
  proof (cases "highlightSpan text chapter verseLocator")
    case None
    then show ?thesis by (simp add: highlight_def)
  next
    case (Some se)
    obtain s e where se: "se = (s, e)" by (cases se)
    with Some have "s \<le> e" by (simp add: highlightSpan_ordered)
    with Some se show ?thesis by (simp add: highlight_def slices_join)
  qed
next
  show "verseLocator = None \<or> verseLocator = Some ''whole'' \<or> text = [] \<longrightarrow>
      highlight text chapter verseLocator = (text, [], [])"
    using highlightSpan_none [of verseLocator "text" "chapter"] by (auto simp: highlight_def)
qed

text \<open>
  The theorem at a passage with a marked sentence, and at the same passage with the
  locator \<^verbatim>\<open>"whole"\<close>.
\<close>

theorem highlight_concat_witness:
  "highlight ''He said. In John 8:13-15 we read (this.) Then more.'' 8 (Some ''13-15'') =
     (''He said. '', ''In John 8:13-15 we read (this.'', '') Then more.'') \<and>
   ''He said. '' @ ''In John 8:13-15 we read (this.'' @ '') Then more.'' =
     ''He said. In John 8:13-15 we read (this.) Then more.'' \<and>
   highlight ''He said. In John 8:13-15 we read (this.) Then more.'' 8 (Some ''whole'') =
     (''He said. In John 8:13-15 we read (this.) Then more.'', [], [])"
proof -
  have ev: "highlight ''He said. In John 8:13-15 we read (this.) Then more.'' 8 (Some ''13-15'') =
     (''He said. '', ''In John 8:13-15 we read (this.'', '') Then more.'')"
    by code_simp
  from highlight_concat [of "''He said. In John 8:13-15 we read (this.) Then more.''" 8 "Some ''13-15''"]
    highlight_concat [of "''He said. In John 8:13-15 we read (this.) Then more.''" 8 "Some ''whole''"]
  show ?thesis
    unfolding ev by simp
qed

subsection \<open>Where the sentence starts\<close>

text \<open>
  The places before which the backward scan can stop, for an offset \<open>s > 0\<close>: two
  consecutive newlines end just before \<open>s\<close>; the first character of the text is a
  newline and \<open>s = 1\<close>; or the character before \<open>s\<close> is \<^verbatim>\<open>.\<close>, \<^verbatim>\<open>!\<close> or \<^verbatim>\<open>?\<close> and white
  space and then an upper-case letter or an opening quote or bracket follow at \<open>s\<close>.
\<close>

definition twoNewlinesBefore :: "string \<Rightarrow> nat \<Rightarrow> bool" where
  "twoNewlinesBefore text s \<longleftrightarrow>
     2 \<le> s \<and> charAt text (s - 1) = Some (CHR 0x0A) \<and> charAt text (s - 2) = Some (CHR 0x0A)"

definition leadingNewlineBefore :: "string \<Rightarrow> nat \<Rightarrow> bool" where
  "leadingNewlineBefore text s \<longleftrightarrow> s = 1 \<and> charAt text 0 = Some (CHR 0x0A)"

definition sentenceBreakBefore :: "string \<Rightarrow> nat \<Rightarrow> bool" where
  "sentenceBreakBefore text s \<longleftrightarrow>
     0 < s \<and> isTerminator (charAt text (s - 1)) \<and> sentenceFollows (drop s text)"

definition boundaryBefore :: "string \<Rightarrow> nat \<Rightarrow> bool" where
  "boundaryBefore text s \<longleftrightarrow>
     twoNewlinesBefore text s \<or> leadingNewlineBefore text s \<or> sentenceBreakBefore text s"

lemma scanBack_Suc:
  "scanBack t (Suc k) = (if boundaryBefore t (Suc k) then Suc k else scanBack t k)"
proof -
  have "(charAt t k = Some (CHR 0x0A) \<and> (Suc k < 2 \<or> charAt t (k - 1) = Some (CHR 0x0A))) =
      (twoNewlinesBefore t (Suc k) \<or> leadingNewlineBefore t (Suc k))"
    by (cases k) (auto simp: twoNewlinesBefore_def leadingNewlineBefore_def)
  moreover have "(isTerminator (charAt t k) \<and> sentenceFollows (drop (Suc k) t)) =
      sentenceBreakBefore t (Suc k)"
    by (simp add: sentenceBreakBefore_def)
  ultimately show ?thesis
    unfolding boundaryBefore_def by (simp only: scanBack.simps) auto
qed

lemma scanBack_stops: "scanBack t k = 0 \<or> boundaryBefore t (scanBack t k)"
  by (induction k) (simp_all add: scanBack_Suc del: scanBack.simps(2))

lemma scanBack_nearest: "scanBack t k < j \<Longrightarrow> j \<le> k \<Longrightarrow> \<not> boundaryBefore t j"
proof (induction k)
  case 0
  then show ?case by simp
next
  case (Suc k)
  show ?case
  proof (cases "boundaryBefore t (Suc k)")
    case True
    with Suc.prems show ?thesis by (simp add: scanBack_Suc del: scanBack.simps(2))
  next
    case False
    with Suc.prems have "scanBack t k < j" by (simp add: scanBack_Suc del: scanBack.simps(2))
    with Suc False show ?thesis by (cases "j = Suc k") auto
  qed
qed

lemma skipSpaces_spaces:
  "(\<forall>i. s \<le> i \<and> i < skipSpaces t s idx \<longrightarrow> charAt t i = Some CHR '' '') \<and>
   (s \<le> idx \<longrightarrow> skipSpaces t s idx = idx \<or> charAt t (skipSpaces t s idx) \<noteq> Some CHR '' '')"
proof (induction t s idx rule: skipSpaces.induct)
  case (1 t s idx)
  show ?case
  proof (cases "s < idx \<and> charAt t s = Some CHR '' ''")
    case True
    then have eq: "skipSpaces t s idx = skipSpaces t (Suc s) idx"
      by (subst skipSpaces.simps) simp
    from "1" [OF True] True show ?thesis
      unfolding eq by (metis Suc_leI le_neq_implies_less)
  next
    case False
    then have "skipSpaces t s idx = s"
      by (subst skipSpaces.simps) auto
    with False show ?thesis by auto
  qed
qed

lemma highlightSpan_start:
  assumes "highlightSpan text chapter verseKey = Some (s, e)"
  shows "\<exists>vk idx len. verseKey = Some vk \<and>
           reExec (showNat chapter) (toRoman chapter) (verseStartOf vk) text = Some (idx, len) \<and>
           s = skipSpaces text (scanBack text idx) idx \<and> e = scanFwd text (idx + len)"
  using assms by (auto simp: highlightSpan_def Let_def split: if_splits option.splits)

text \<open>
  The text \<^verbatim>\<open>Rom. viii. 13 says\<close> in any context: no boundary lies just after the period
  of \<^verbatim>\<open>Rom.\<close>, since a lower-case letter follows the white space there.
\<close>

lemma boundaryBefore_cases:
  "boundaryBefore t s \<Longrightarrow>
     charAt t (s - 1) = Some (CHR 0x0A) \<or>
     (isTerminator (charAt t (s - 1)) \<and> sentenceFollows (drop s t))"
  by (auto simp: boundaryBefore_def twoNewlinesBefore_def leadingNewlineBefore_def
      sentenceBreakBefore_def)

lemma rom_context:
  "charAt (pre @ ''Rom. viii. 13 says'' @ post) (length pre + 3) = Some CHR ''.'' \<and>
   charAt (pre @ ''Rom. viii. 13 says'' @ post) (length pre + 4 - 1) = Some CHR ''.'' \<and>
   charAt (pre @ ''Rom. viii. 13 says'' @ post) (length pre + 5 - 1) = Some CHR '' '' \<and>
   drop (length pre + 4) (pre @ ''Rom. viii. 13 says'' @ post) = '' viii. 13 says'' @ post"
  by (simp add: charAt_def nth_append)

lemma rom_no_boundary:
  "\<not> boundaryBefore (pre @ ''Rom. viii. 13 says'' @ post) (length pre + 4) \<and>
   \<not> boundaryBefore (pre @ ''Rom. viii. 13 says'' @ post) (length pre + 5)"
proof -
  let ?t = "pre @ ''Rom. viii. 13 says'' @ post"
  have c3: "charAt ?t (length pre + 4 - 1) = Some CHR ''.''"
    and c4: "charAt ?t (length pre + 5 - 1) = Some CHR '' ''"
    and d4: "drop (length pre + 4) ?t = '' viii. 13 says'' @ post"
    using rom_context [of pre post] by blast+
  have nofollow: "\<not> sentenceFollows ('' viii. 13 says'' @ post)"
    by (simp add: sentenceFollows_def isSpace_def isUpper_def)
  have chars: "Some CHR ''.'' \<noteq> Some (CHR 0x0A)" "Some CHR '' '' \<noteq> Some (CHR 0x0A)"
    "\<not> isTerminator (Some CHR '' '')"
    by (simp_all add: isTerminator_def)
  have "\<not> boundaryBefore ?t (length pre + 4)"
    using boundaryBefore_cases [of ?t "length pre + 4"] c3 d4 nofollow chars by metis
  moreover have "\<not> boundaryBefore ?t (length pre + 5)"
    using boundaryBefore_cases [of ?t "length pre + 5"] c4 chars by metis
  ultimately show ?thesis by simp
qed

lemma rom_not_start:
  fixes pre post :: string
  defines "t \<equiv> pre @ ''Rom. viii. 13 says'' @ post"
  shows "skipSpaces t (scanBack t idx) idx \<noteq> length pre + 4 \<and>
         skipSpaces t (scanBack t idx) idx \<noteq> length pre + 5"
proof -
  define s0 where "s0 = scanBack t idx"
  define s where "s = skipSpaces t s0 idx"
  have nb: "\<not> boundaryBefore t (length pre + 4)" "\<not> boundaryBefore t (length pre + 5)"
    using rom_no_boundary [of pre post] by (simp_all add: t_def)
  have s0: "s0 \<noteq> length pre + 4" "s0 \<noteq> length pre + 5"
    using scanBack_stops [of t idx] nb unfolding s0_def by auto
  have spaces: "\<And>i. s0 \<le> i \<and> i < s \<Longrightarrow> charAt t i = Some CHR '' ''" and "s0 \<le> s"
    using skipSpaces_spaces [of s0 t idx] skipSpaces_bounds [of s0 t idx] unfolding s_def by auto
  have c3: "charAt t (length pre + 3) = Some CHR ''.''"
    unfolding t_def using rom_context [of pre post] by blast
  have "s \<noteq> length pre + 4"
  proof
    assume eq: "s = length pre + 4"
    with s0 \<open>s0 \<le> s\<close> have "s0 \<le> length pre + 3" by simp
    with spaces [of "length pre + 3"] eq c3 show False by simp
  qed
  moreover have "s \<noteq> length pre + 5"
  proof
    assume eq: "s = length pre + 5"
    with s0 \<open>s0 \<le> s\<close> have "s0 \<le> length pre + 3" by simp
    with spaces [of "length pre + 3"] eq c3 show False by simp
  qed
  ultimately show ?thesis
    unfolding s_def s0_def by simp
qed

text \<open>
  Claim C4, as the code has it. Once the pattern has matched at offset \<open>idx\<close>, the
  backward scan ends at the start of the text or just after the nearest boundary at or
  before \<open>idx\<close>: two consecutive newlines, a newline that is the first character of the
  text, or a \<^verbatim>\<open>.\<close>, \<^verbatim>\<open>!\<close> or \<^verbatim>\<open>?\<close> followed by white space and then an upper-case
  letter or an opening quote or bracket. The plain spaces that follow are then skipped,
  up to the match at most, and the result is the start of the highlighted part.
  Consequently, for a passage that contains \<^verbatim>\<open>Rom. viii. 13 says\<close>, chapter 8 and verse
  \<^verbatim>\<open>"13"\<close>, the sentence never starts at the period of \<^verbatim>\<open>Rom.\<close> (just after it, or at
  the word after it); for the passage \<^verbatim>\<open>... Rom. viii. 13 says ...\<close> itself the
  highlighted part starts at \<^verbatim>\<open>Rom.\<close>.
\<close>

theorem sentence_start_boundary:
  "scanBack passage idx \<le> idx \<and>
   (scanBack passage idx = 0 \<or> twoNewlinesBefore passage (scanBack passage idx) \<or>
    leadingNewlineBefore passage (scanBack passage idx) \<or>
    sentenceBreakBefore passage (scanBack passage idx)) \<and>
   (\<forall>j. scanBack passage idx < j \<and> j \<le> idx \<longrightarrow>
      \<not> twoNewlinesBefore passage j \<and> \<not> leadingNewlineBefore passage j \<and>
      \<not> sentenceBreakBefore passage j) \<and>
   scanBack passage idx \<le> skipSpaces passage (scanBack passage idx) idx \<and>
   skipSpaces passage (scanBack passage idx) idx \<le> idx \<and>
   (\<forall>i. scanBack passage idx \<le> i \<and> i < skipSpaces passage (scanBack passage idx) idx \<longrightarrow>
      charAt passage i = Some CHR '' '') \<and>
   (skipSpaces passage (scanBack passage idx) idx = idx \<or>
    charAt passage (skipSpaces passage (scanBack passage idx) idx) \<noteq> Some CHR '' '') \<and>
   (highlightSpan passage chap verseKey = Some (s, e) \<longrightarrow>
      (\<exists>vk m len. verseKey = Some vk \<and>
         reExec (showNat chap) (toRoman chap) (verseStartOf vk) passage = Some (m, len) \<and>
         s = skipSpaces passage (scanBack passage m) m \<and>
         fst (highlight passage chap verseKey) = take s passage)) \<and>
   (highlightSpan (pre @ ''Rom. viii. 13 says'' @ post) 8 (Some ''13'') = Some (s', e') \<longrightarrow>
      s' \<noteq> length pre + 4 \<and> s' \<noteq> length pre + 5) \<and>
   highlight ''... Rom. viii. 13 says ...'' 8 (Some ''13'') =
     (''... '', ''Rom. viii. 13 says ...'', [])"
proof -
  define s0 where "s0 = scanBack passage idx"
  have le: "s0 \<le> idx"
    unfolding s0_def by (rule scanBack_le)
  have stop: "s0 = 0 \<or> twoNewlinesBefore passage s0 \<or> leadingNewlineBefore passage s0 \<or>
      sentenceBreakBefore passage s0"
    using scanBack_stops [of passage idx] unfolding s0_def boundaryBefore_def by blast
  have nearest: "\<forall>j. s0 < j \<and> j \<le> idx \<longrightarrow>
      \<not> twoNewlinesBefore passage j \<and> \<not> leadingNewlineBefore passage j \<and>
      \<not> sentenceBreakBefore passage j"
    using scanBack_nearest [of passage idx] unfolding s0_def boundaryBefore_def by blast
  have trim1: "s0 \<le> skipSpaces passage s0 idx" and trim2: "skipSpaces passage s0 idx \<le> idx"
    using skipSpaces_bounds [of s0 passage idx] le by blast+
  have trim3: "\<forall>i. s0 \<le> i \<and> i < skipSpaces passage s0 idx \<longrightarrow> charAt passage i = Some CHR '' ''"
    and trim4: "skipSpaces passage s0 idx = idx \<or> charAt passage (skipSpaces passage s0 idx) \<noteq> Some CHR '' ''"
    using skipSpaces_spaces [of s0 passage idx] le by blast+
  have span: "\<exists>vk m len. verseKey = Some vk \<and>
         reExec (showNat chap) (toRoman chap) (verseStartOf vk) passage = Some (m, len) \<and>
         s = skipSpaces passage (scanBack passage m) m \<and>
         fst (highlight passage chap verseKey) = take s passage"
    if h: "highlightSpan passage chap verseKey = Some (s, e)"
  proof -
    from h have "fst (highlight passage chap verseKey) = take s passage"
      by (simp add: highlight_def)
    with highlightSpan_start [OF h] show ?thesis by blast
  qed
  have rom: "s' \<noteq> length pre + 4 \<and> s' \<noteq> length pre + 5"
    if h: "highlightSpan (pre @ ''Rom. viii. 13 says'' @ post) 8 (Some ''13'') = Some (s', e')"
  proof -
    from highlightSpan_start [OF h] obtain m where
      "s' = skipSpaces (pre @ ''Rom. viii. 13 says'' @ post)
              (scanBack (pre @ ''Rom. viii. 13 says'' @ post) m) m"
      by blast
    then show ?thesis
      using rom_not_start [of pre post m] by simp
  qed
  have lit: "highlight ''... Rom. viii. 13 says ...'' 8 (Some ''13'') =
     (''... '', ''Rom. viii. 13 says ...'', [])"
    by code_simp
  from le stop nearest trim1 trim2 trim3 trim4 span rom lit show ?thesis
    unfolding s0_def by blast
qed

text \<open>
  The theorem at the passage \<^verbatim>\<open>... Rom. viii. 13 says ...\<close>: the match is at offset 9,
  the scan passes the period of \<^verbatim>\<open>Rom.\<close> and stops after the third period of the
  ellipsis (white space and the upper-case R follow), and one space is skipped.
\<close>

theorem sentence_start_boundary_witness:
  "highlightSpan ''... Rom. viii. 13 says ...'' 8 (Some ''13'') = Some (4, 26) \<and>
   reExec (showNat 8) (toRoman 8) (verseStartOf ''13'') ''... Rom. viii. 13 says ...'' = Some (9, 8) \<and>
   scanBack ''... Rom. viii. 13 says ...'' 9 = 3 \<and>
   sentenceBreakBefore ''... Rom. viii. 13 says ...'' 3 \<and>
   skipSpaces ''... Rom. viii. 13 says ...'' 3 9 = 4 \<and>
   (4::nat) \<noteq> length ''... '' + 4 \<and> (4::nat) \<noteq> length ''... '' + 5"
proof -
  have span: "highlightSpan (''... '' @ ''Rom. viii. 13 says'' @ '' ...'') 8 (Some ''13'') = Some (4, 26)"
    by code_simp
  have m: "reExec (showNat 8) (toRoman 8) (verseStartOf ''13'') ''... Rom. viii. 13 says ...'' = Some (9, 8)"
    by code_simp
  have scan: "scanBack ''... Rom. viii. 13 says ...'' 9 = 3"
    by code_simp
  have brk: "sentenceBreakBefore ''... Rom. viii. 13 says ...'' 3"
    by code_simp
  have skip: "skipSpaces ''... Rom. viii. 13 says ...'' 3 9 = 4"
    by code_simp
  from sentence_start_boundary [where pre = "''... ''" and post = "'' ...''" and s' = 4
      and e' = 26 and passage = "''... Rom. viii. 13 says ...''" and idx = 9 and chap = 8
      and verseKey = "Some ''13''" and s = 4 and e = 26] span
  have "(4::nat) \<noteq> length ''... '' + 4 \<and> (4::nat) \<noteq> length ''... '' + 5"
    by blast
  with span m scan brk skip show ?thesis
    by simp
qed

text \<open>
  As the claim is worded (the scan stops only at two consecutive newlines or at a
  sentence break) it fails for a passage that begins with a single newline: with the
  match at offset 1 the scan stops at once, after one newline, and the newline is left
  out of the highlighted part.
\<close>

theorem sentence_start_single_newline_counterexample:
  "reExec (showNat 8) (toRoman 8) (verseStartOf ''13'') (CHR 0x0A # ''8:13'') = Some (1, 4) \<and>
   scanBack (CHR 0x0A # ''8:13'') 1 = 1 \<and>
   \<not> twoNewlinesBefore (CHR 0x0A # ''8:13'') 1 \<and>
   \<not> sentenceBreakBefore (CHR 0x0A # ''8:13'') 1 \<and>
   highlight (CHR 0x0A # ''8:13'') 8 (Some ''13'') = ([CHR 0x0A], ''8:13'', [])"
  by code_simp

section \<open>Era buckets\<close>

text \<open>
  A citation of a work's citation list (of \<^verbatim>\<open>manuscripts/{id}.json\<close>); the timeline reads
  its \<^verbatim>\<open>book_slug\<close> only.
\<close>

record work_ref =
  book_slug :: string

definition BOOK_GROUP_MAP :: "(string \<times> string) list" where
  "BOOK_GROUP_MAP =
     map (\<lambda>s. (s, ''Pentateuch''))
       [''genesis'', ''exodus'', ''leviticus'', ''numbers'', ''deuteronomy''] @
     map (\<lambda>s. (s, ''Historical''))
       [''joshua'', ''judges'', ''ruth'', ''1-samuel'', ''2-samuel'', ''1-kings'', ''2-kings'',
        ''1-chronicles'', ''2-chronicles'', ''ezra'', ''nehemiah'', ''esther''] @
     map (\<lambda>s. (s, ''Poetic''))
       [''job'', ''psalms'', ''proverbs'', ''ecclesiastes'', ''song-of-solomon''] @
     map (\<lambda>s. (s, ''Maj. Prophets''))
       [''isaiah'', ''jeremiah'', ''lamentations'', ''ezekiel'', ''daniel''] @
     map (\<lambda>s. (s, ''Min. Prophets''))
       [''hosea'', ''joel'', ''amos'', ''obadiah'', ''jonah'', ''micah'', ''nahum'',
        ''habakkuk'', ''zephaniah'', ''haggai'', ''zechariah'', ''malachi''] @
     map (\<lambda>s. (s, ''Gospels'')) [''matthew'', ''mark'', ''luke'', ''john''] @
     map (\<lambda>s. (s, ''Acts & Epistles''))
       [''acts'', ''romans'', ''1-corinthians'', ''2-corinthians'', ''galatians'', ''ephesians'',
        ''philippians'', ''colossians'', ''1-thessalonians'', ''2-thessalonians'',
        ''1-timothy'', ''2-timothy'', ''titus'', ''philemon'', ''hebrews'',
        ''james'', ''1-peter'', ''2-peter'', ''1-john'', ''2-john'', ''3-john'', ''jude''] @
     map (\<lambda>s. (s, ''Revelation'')) [''revelation'']"

definition BOOK_GROUP_ORDER :: "string list" where
  "BOOK_GROUP_ORDER =
     [''Pentateuch'', ''Historical'', ''Poetic'', ''Maj. Prophets'', ''Min. Prophets'',
      ''Deuterocanon'',
      ''Gospels'', ''Acts & Epistles'', ''Revelation'']"

text \<open>\<^verbatim>\<open>BOOK_GROUP_MAP.get(ref.book_slug) ?? 'Deuterocanon'\<close> and \<^verbatim>\<open>m.get(k) || 0\<close>.\<close>

definition bookGroup :: "string \<Rightarrow> string" where
  "bookGroup slug = (case map_of BOOK_GROUP_MAP slug of None \<Rightarrow> ''Deuterocanon'' | Some g \<Rightarrow> g)"

definition getOr0 :: "('k \<times> nat) list \<Rightarrow> 'k \<Rightarrow> nat" where
  "getOr0 m k = (case map_of m k of None \<Rightarrow> 0 | Some n \<Rightarrow> n)"

text \<open>The per-work count of citations by section, built for each fetched citation list.\<close>

definition groupCountsOf :: "work_ref list \<Rightarrow> (string \<times> nat) list" where
  "groupCountsOf refs =
     fold (\<lambda>ref groupCounts.
             map_set groupCounts (bookGroup (book_slug ref))
               (getOr0 groupCounts (bookGroup (book_slug ref)) + 1))
          refs []"

record work_data =
  data_work :: work
  groupCounts :: "(string \<times> nat) list"

text \<open>
  \<^verbatim>\<open>w.year\<close> as a number. It is read only for works that passed \<^verbatim>\<open>w.year != null\<close>;
  JavaScript's arithmetic reads \<^verbatim>\<open>null\<close> as 0.
\<close>

definition yearNum :: "work \<Rightarrow> int" where
  "yearNum wk = (case year wk of None \<Rightarrow> 0 | Some y \<Rightarrow> y)"

definition worksWithYear :: "work list \<Rightarrow> string set \<Rightarrow> work list" where
  "worksWithYear works cats = filter (\<lambda>wk. year wk \<noteq> None \<and> categoryOf wk \<in> cats) works"

text \<open>The constant \<^verbatim>\<open>BUCKET\<close>, chosen from \<^verbatim>\<open>yearSpan = maxYear - minYear\<close>.\<close>

definition BUCKET :: "int \<Rightarrow> int" where
  "BUCKET yearSpan =
     (if yearSpan < 200 then 25 else if yearSpan < 500 then 50
      else if yearSpan < 1000 then 100 else if yearSpan < 2000 then 200 else 500)"

record bucket =
  bucket_b :: int
  worksCount :: nat
  groupTotals :: "(string \<times> nat) list"
  total :: nat

text \<open>The two nested loops that add up \<^verbatim>\<open>groupTotals\<close> and \<^verbatim>\<open>total\<close> of one bucket.\<close>

definition addGroupCounts ::
  "(string \<times> nat) list \<Rightarrow> (string \<times> nat) list \<times> nat \<Rightarrow> (string \<times> nat) list \<times> nat" where
  "addGroupCounts counts acc =
     fold (\<lambda>(g, n) (totals, tot). (map_set totals g (getOr0 totals g + n), tot + n)) counts acc"

definition bucketTotals :: "work_data list \<Rightarrow> (string \<times> nat) list \<times> nat" where
  "bucketTotals wInBucket = fold (\<lambda>d acc. addGroupCounts (groupCounts d) acc) wInBucket ([], 0)"

text \<open>
  The loop \<^verbatim>\<open>for (let b = firstBucket; b <= maxYear; b += BUCKET)\<close>. The step is one of
  the five positive values of \<^verbatim>\<open>BUCKET\<close>; the guard \<open>0 < step\<close> says so to the
  termination proof.
\<close>

function buildBuckets :: "int \<Rightarrow> int \<Rightarrow> int \<Rightarrow> work_data list \<Rightarrow> bucket list" where
  "buildBuckets b maxYear step workRefsData =
     (if 0 < step \<and> b \<le> maxYear then
        (let wInBucket =
               filter (\<lambda>d. b \<le> yearNum (data_work d) \<and> yearNum (data_work d) < b + step)
                 workRefsData
         in if wInBucket = [] then []
            else [\<lparr>bucket_b = b, worksCount = length wInBucket,
                    groupTotals = fst (bucketTotals wInBucket),
                    total = snd (bucketTotals wInBucket)\<rparr>]) @
        buildBuckets (b + step) maxYear step workRefsData
      else [])"
  by pat_completeness auto
termination
  by (relation "measure (\<lambda>(b, maxYear, step, workRefsData). nat (maxYear - b + 1))") auto

declare buildBuckets.simps [simp del]

text \<open>
  The stacked bar of one bucket: for each active section in turn, a segment with the
  section's name and its count, a section with count 0 being skipped.
\<close>

definition barSegments :: "string list \<Rightarrow> bucket \<Rightarrow> (string \<times> nat) list" where
  "barSegments activeGroups bk =
     map (\<lambda>g. (g, getOr0 (groupTotals bk) g))
       (filter (\<lambda>g. getOr0 (groupTotals bk) g \<noteq> 0) activeGroups)"

text \<open>
  What \<^verbatim>\<open>renderBibleRefsByDate\<close> draws once every citation list is there: the message
  \<^verbatim>\<open>No data.\<close>, or the bucket size of the description, the bars in the order of
  \<^verbatim>\<open>buckets\<close> (each with its segments from the bottom up) and the legend.
  \<^verbatim>\<open>Math.min(...[])\<close> is \<^verbatim>\<open>Infinity\<close>, with which the bucket loop does not run:
  \<open>NoBuckets\<close>.
\<close>

datatype refs_chart =
  NoData
| NoBuckets
| StackedBars int "(bucket \<times> (string \<times> nat) list) list" "string list"

definition refsByDateChart :: "work list \<Rightarrow> work_data list \<Rightarrow> refs_chart" where
  "refsByDateChart dated workRefsData =
     (let activeGroups =
            filter (\<lambda>g. list_ex (\<lambda>d. map_of (groupCounts d) g \<noteq> None) workRefsData)
              BOOK_GROUP_ORDER
      in if activeGroups = [] then NoData
         else (case map yearNum dated of
                 [] \<Rightarrow> NoBuckets
               | y # ys \<Rightarrow>
                   let minYear = fold min ys y;
                       maxYear = fold max ys y;
                       yearSpan = maxYear - minYear;
                       step = BUCKET yearSpan;
                       firstBucket = (minYear div step) * step;
                       buckets = buildBuckets firstBucket maxYear step workRefsData
                   in if buckets = [] then NoBuckets
                      else StackedBars step
                             (map (\<lambda>bk. (bk, barSegments activeGroups bk)) buckets)
                             activeGroups))"

text \<open>
  The chart for an index, a set of checked categories and the citation list of every
  work (what \<^verbatim>\<open>fetchWorkRefs\<close> returned for it).
\<close>

definition eraChart :: "work list \<Rightarrow> string set \<Rightarrow> (nat \<Rightarrow> work_ref list) \<Rightarrow> refs_chart" where
  "eraChart works cats refsOf =
     refsByDateChart (worksWithYear works cats)
       (map (\<lambda>wk. \<lparr>data_work = wk, groupCounts = groupCountsOf (refsOf (work_id wk))\<rparr>)
          (worksWithYear works cats))"

text \<open>
  \<^verbatim>\<open>renderWorksTimeline\<close>: the dated works of the checked categories in ascending order
  of year (the sort is stable) and the note on the works without a year.
\<close>

datatype timeline = TimelineNoData | Timeline "work list" "string option"

definition renderWorksTimeline :: "work list \<Rightarrow> string set \<Rightarrow> timeline" where
  "renderWorksTimeline works cats =
     (let withYear = sort_key yearNum (filter (\<lambda>wk. year wk \<noteq> None \<and> categoryOf wk \<in> cats) works);
          noYear = filter (\<lambda>wk. year wk = None \<and> categoryOf wk \<in> cats) works
      in if withYear = [] \<and> noYear = [] then TimelineNoData
         else Timeline withYear
                (if noYear \<noteq> []
                 then Some (showNat (length noYear) @ '' work'' @
                            (if length noYear \<noteq> 1 then ''s'' else []) @
                            '' without a known date not shown.'')
                 else None))"

subsection \<open>Properties of the bucket loop\<close>

text \<open>The works of one bucket, and what one round of the loop appends.\<close>

definition inBucket :: "int \<Rightarrow> int \<Rightarrow> work_data list \<Rightarrow> work_data list" where
  "inBucket b step ds =
     filter (\<lambda>d. b \<le> yearNum (data_work d) \<and> yearNum (data_work d) < b + step) ds"

definition bucketAt :: "int \<Rightarrow> int \<Rightarrow> work_data list \<Rightarrow> bucket list" where
  "bucketAt b step ds =
     (if inBucket b step ds = [] then []
      else [\<lparr>bucket_b = b, worksCount = length (inBucket b step ds),
              groupTotals = fst (bucketTotals (inBucket b step ds)),
              total = snd (bucketTotals (inBucket b step ds))\<rparr>])"

lemma buildBuckets_stop:
  "\<not> (0 < step \<and> b \<le> maxYear) \<Longrightarrow> buildBuckets b maxYear step ds = []"
  by (subst buildBuckets.simps) auto

lemma buildBuckets_step:
  "0 < step \<and> b \<le> maxYear \<Longrightarrow>
     buildBuckets b maxYear step ds = bucketAt b step ds @ buildBuckets (b + step) maxYear step ds"
  by (subst buildBuckets.simps) (simp add: Let_def bucketAt_def inBucket_def)

lemma bucketAt_member:
  assumes "bk \<in> set (bucketAt b step ds)"
  shows "bucket_b bk = b" and "worksCount bk = length (inBucket b step ds)"
    and "0 < worksCount bk"
  using assms by (auto simp: bucketAt_def split: if_splits)

lemma buildBuckets_members:
  "bk \<in> set (buildBuckets b maxYear step ds) \<Longrightarrow>
     b \<le> bucket_b bk \<and> bucket_b bk \<le> maxYear \<and> 0 < step \<and> step dvd (bucket_b bk - b) \<and>
     worksCount bk = length (inBucket (bucket_b bk) step ds) \<and> 0 < worksCount bk"
proof (induction b maxYear step ds rule: buildBuckets.induct)
  case (1 b maxYear step ds)
  show ?case
  proof (cases "0 < step \<and> b \<le> maxYear")
    case False
    with "1.prems" show ?thesis
      by (simp add: buildBuckets_stop)
  next
    case True
    from "1.prems" have "bk \<in> set (bucketAt b step ds) \<or>
        bk \<in> set (buildBuckets (b + step) maxYear step ds)"
      by (simp add: buildBuckets_step [OF True])
    then show ?thesis
    proof
      assume "bk \<in> set (bucketAt b step ds)"
      from bucketAt_member [OF this] True show ?thesis by simp
    next
      assume "bk \<in> set (buildBuckets (b + step) maxYear step ds)"
      from "1.IH" [OF True this] have ih: "b + step \<le> bucket_b bk" "bucket_b bk \<le> maxYear"
        "step dvd (bucket_b bk - (b + step))"
        "worksCount bk = length (inBucket (bucket_b bk) step ds)" "0 < worksCount bk"
        by blast+
      have "bucket_b bk - b = (bucket_b bk - (b + step)) + step" by simp
      with ih(3) have "step dvd (bucket_b bk - b)"
        by (metis dvd_add dvd_refl)
      with ih True show ?thesis by simp
    qed
  qed
qed


lemma buildBuckets_count:
  assumes "0 < step" and "\<forall>d\<in>set ds. yearNum (data_work d) \<le> maxYear"
  shows "sum_list (map worksCount (buildBuckets b maxYear step ds)) =
         length (filter (\<lambda>d. b \<le> yearNum (data_work d)) ds)"
  using assms
proof (induction b maxYear step ds rule: buildBuckets.induct)
  case (1 b maxYear step ds)
  show ?case
  proof (cases "b \<le> maxYear")
    case False
    with "1.prems" have "filter (\<lambda>d. b \<le> yearNum (data_work d)) ds = []"
      by (auto simp: filter_empty_conv)
    with False show ?thesis
      by (simp add: buildBuckets_stop)
  next
    case True
    with "1.prems" have go: "0 < step \<and> b \<le> maxYear" by simp
    have rest: "sum_list (map worksCount (buildBuckets (b + step) maxYear step ds)) =
        length (filter (\<lambda>d. b + step \<le> yearNum (data_work d)) ds)"
      using "1.IH" [OF go] "1.prems" by simp
    have split: "length (filter (\<lambda>d. b \<le> yearNum (data_work d)) ds) =
        length (inBucket b step ds) +
        length (filter (\<lambda>d. b + step \<le> yearNum (data_work d)) ds)"
      unfolding inBucket_def using "1.prems"(1) by (induction ds) auto
    have here: "sum_list (map worksCount (bucketAt b step ds)) = length (inBucket b step ds)"
      by (simp add: bucketAt_def)
    show ?thesis
      by (simp add: buildBuckets_step [OF go] rest split here)
  qed
qed

lemma fold_min_Min: "fold min ys (y::int) = Min (set (y # ys))"
  by (rule Min.set_eq_fold [symmetric])

lemma fold_max_Max: "fold max ys (y::int) = Max (set (y # ys))"
  by (rule Max.set_eq_fold [symmetric])

lemma BUCKET_positive: "0 < BUCKET yearSpan"
  by (simp add: BUCKET_def)

subsection \<open>Properties of the chart\<close>

text \<open>The citation data the chart is drawn from, and what a drawn chart consists of.\<close>

definition workRefsDataOf :: "work list \<Rightarrow> string set \<Rightarrow> (nat \<Rightarrow> work_ref list) \<Rightarrow> work_data list" where
  "workRefsDataOf works cats refsOf =
     map (\<lambda>wk. \<lparr>data_work = wk, groupCounts = groupCountsOf (refsOf (work_id wk))\<rparr>)
       (worksWithYear works cats)"

lemma inBucket_workRefsDataOf:
  "length (inBucket b step (workRefsDataOf works cats refsOf)) =
     length (filter (\<lambda>wk. b \<le> yearNum wk \<and> yearNum wk < b + step) (worksWithYear works cats))"
  by (simp add: inBucket_def workRefsDataOf_def filter_map o_def)

lemma eraChart_bars:
  assumes "eraChart works cats refsOf = StackedBars step bars legend"
  shows "worksWithYear works cats \<noteq> []"
    and "step = BUCKET (Max (yearNum ` set (worksWithYear works cats)) -
                        Min (yearNum ` set (worksWithYear works cats)))"
    and "map fst bars =
           buildBuckets ((Min (yearNum ` set (worksWithYear works cats)) div step) * step)
             (Max (yearNum ` set (worksWithYear works cats))) step
             (workRefsDataOf works cats refsOf)"
    and "legend = filter (\<lambda>g. list_ex (\<lambda>d. map_of (groupCounts d) g \<noteq> None)
                                (workRefsDataOf works cats refsOf)) BOOK_GROUP_ORDER"
    and "\<forall>bar\<in>set bars. snd bar = barSegments legend (fst bar)"
proof -
  let ?dated = "worksWithYear works cats"
  let ?ds = "workRefsDataOf works cats refsOf"
  from assms obtain y ys where ys: "map yearNum ?dated = y # ys"
    by (auto simp: eraChart_def refsByDateChart_def Let_def split: if_splits list.splits)
  then show "?dated \<noteq> []" by auto
  from ys have "yearNum ` set ?dated = set (y # ys)"
    by (metis list.set_map)
  then have mm: "fold min ys y = Min (yearNum ` set ?dated)" "fold max ys y = Max (yearNum ` set ?dated)"
    by (simp_all only: fold_min_Min fold_max_Max)
  from assms ys have chart: "step = BUCKET (fold max ys y - fold min ys y)"
    "bars = map (\<lambda>bk. (bk, barSegments legend bk))
       (buildBuckets ((fold min ys y div step) * step) (fold max ys y) step ?ds)"
    "legend = filter (\<lambda>g. list_ex (\<lambda>d. map_of (groupCounts d) g \<noteq> None) ?ds) BOOK_GROUP_ORDER"
    by (auto simp: eraChart_def refsByDateChart_def workRefsDataOf_def Let_def
        split: if_splits)
  from chart(1) show "step = BUCKET (Max (yearNum ` set ?dated) - Min (yearNum ` set ?dated))"
    by (simp only: mm)
  from chart(2) show "map fst bars =
      buildBuckets ((Min (yearNum ` set ?dated) div step) * step) (Max (yearNum ` set ?dated)) step ?ds"
    by (simp add: mm o_def)
  from chart(3) show "legend = filter (\<lambda>g. list_ex (\<lambda>d. map_of (groupCounts d) g \<noteq> None) ?ds)
      BOOK_GROUP_ORDER" .
  from chart(2) show "\<forall>bar\<in>set bars. snd bar = barSegments legend (fst bar)"
    by auto
qed

lemma eraChart_bucket:
  assumes "eraChart works cats refsOf = StackedBars step bars legend" and "bar \<in> set bars"
  shows "step dvd bucket_b (fst bar)"
    and "worksCount (fst bar) =
           length (filter (\<lambda>wk. bucket_b (fst bar) \<le> yearNum wk \<and>
                                 yearNum wk < bucket_b (fst bar) + step)
                     (worksWithYear works cats))"
    and "0 < worksCount (fst bar)"
proof -
  let ?first = "(Min (yearNum ` set (worksWithYear works cats)) div step) * step"
  from assms(2) have "fst bar \<in> set (map fst bars)" by simp
  then have mem: "fst bar \<in> set (buildBuckets ?first
      (Max (yearNum ` set (worksWithYear works cats))) step (workRefsDataOf works cats refsOf))"
    by (simp only: eraChart_bars(3) [OF assms(1)])
  note facts = buildBuckets_members [OF mem]
  from facts have "step dvd (bucket_b (fst bar) - ?first)" by blast
  moreover have "step dvd ?first" by simp
  ultimately have "step dvd (bucket_b (fst bar) - ?first) + ?first"
    by (rule dvd_add)
  then show "step dvd bucket_b (fst bar)" by simp
  from facts show "worksCount (fst bar) =
      length (filter (\<lambda>wk. bucket_b (fst bar) \<le> yearNum wk \<and> yearNum wk < bucket_b (fst bar) + step)
        (worksWithYear works cats))"
    by (simp only: inBucket_workRefsDataOf)
  from facts show "0 < worksCount (fst bar)" by blast
qed


text \<open>
  An index of five works (one without a year, one without a category) and the citation
  lists of its works, for the examples below.
\<close>

definition example_index :: "work list" where
  "example_index =
     [\<lparr>work_id = 1, year = Some 1900, category = Some ''Fathers''\<rparr>,
      \<lparr>work_id = 2, year = Some 100, category = Some ''Fathers''\<rparr>,
      \<lparr>work_id = 3, year = None, category = Some ''Fathers''\<rparr>,
      \<lparr>work_id = 4, year = Some 430, category = None\<rparr>,
      \<lparr>work_id = 5, year = Some 397, category = Some ''Fathers''\<rparr>]"

definition example_citations :: "nat \<Rightarrow> work_ref list" where
  "example_citations i =
     (if i = 1 then [\<lparr>book_slug = ''revelation''\<rparr>, \<lparr>book_slug = ''genesis''\<rparr>, \<lparr>book_slug = ''tobit''\<rparr>]
      else if i = 2 then [\<lparr>book_slug = ''john''\<rparr>, \<lparr>book_slug = ''genesis''\<rparr>, \<lparr>book_slug = ''john''\<rparr>]
      else [\<lparr>book_slug = ''psalms''\<rparr>])"

definition example_bars :: "(bucket \<times> (string \<times> nat) list) list" where
  "example_bars =
     [(\<lparr>bucket_b = 0, worksCount = 1,
         groupTotals = [(''Gospels'', 2), (''Pentateuch'', 1)], total = 3\<rparr>,
       [(''Pentateuch'', 1), (''Gospels'', 2)]),
      (\<lparr>bucket_b = 200, worksCount = 1, groupTotals = [(''Poetic'', 1)], total = 1\<rparr>,
       [(''Poetic'', 1)]),
      (\<lparr>bucket_b = 1800, worksCount = 1,
         groupTotals = [(''Revelation'', 1), (''Pentateuch'', 1), (''Deuterocanon'', 1)],
         total = 3\<rparr>,
       [(''Pentateuch'', 1), (''Deuterocanon'', 1), (''Revelation'', 1)])]"

lemma example_chart:
  "eraChart example_index {''Fathers''} example_citations =
     StackedBars 200 example_bars
       [''Pentateuch'', ''Poetic'', ''Deuterocanon'', ''Gospels'', ''Revelation'']"
  by code_simp



subsection \<open>What a bar adds up\<close>




















lemma bookGroup_canonical: "bookGroup slug \<in> set BOOK_GROUP_ORDER"
proof (cases "map_of BOOK_GROUP_MAP slug")
  case None
  then show ?thesis by (simp add: bookGroup_def BOOK_GROUP_ORDER_def)
next
  case (Some g)
  then have "(slug, g) \<in> set BOOK_GROUP_MAP" by (rule map_of_SomeD)
  then have "g \<in> snd ` set BOOK_GROUP_MAP" by force
  also have "snd ` set BOOK_GROUP_MAP \<subseteq> set BOOK_GROUP_ORDER"
    by (simp add: BOOK_GROUP_MAP_def BOOK_GROUP_ORDER_def image_Un image_image)
  finally show ?thesis using Some by (simp add: bookGroup_def)
qed




section \<open>The visualisation tab and its asynchronous chart\<close>

text \<open>
  \<^verbatim>\<open>await fetchJSON(url)\<close> either throws or gives the parsed file; for a work that is the
  manuscript with its citation list \<^verbatim>\<open>refs\<close>.
\<close>

datatype 'a fetched = Rejected | Resolved 'a

record manuscript =
  ms_title :: string
  ms_refs :: "work_ref list"

text \<open>
  \<^verbatim>\<open>fetchWorkRefs(workId)\<close> runs in two steps with the fetch between them: the look-up in
  \<^verbatim>\<open>workRefsCache\<close> when it is called, and, on a miss, the write to the cache when the
  fetch has settled (\<open>fetchWorkRefs_settle\<close>). \<open>fetchWorkRefs\<close> is a call with nothing
  else happening between the two steps. Both return the new cache and the citation list
  the caller gets.
\<close>

definition fetchWorkRefs_settle ::
  "(nat \<times> work_ref list) list \<Rightarrow> nat \<Rightarrow> manuscript fetched
    \<Rightarrow> (nat \<times> work_ref list) list \<times> work_ref list" where
  "fetchWorkRefs_settle cache workId outcome =
     (case outcome of
        Resolved data \<Rightarrow> (map_set cache workId (ms_refs data), ms_refs data)
      | Rejected \<Rightarrow> (map_set cache workId [], []))"

definition fetchWorkRefs ::
  "(nat \<times> work_ref list) list \<Rightarrow> nat \<Rightarrow> manuscript fetched
    \<Rightarrow> (nat \<times> work_ref list) list \<times> work_ref list" where
  "fetchWorkRefs cache workId outcome =
     (case map_of cache workId of
        Some refs \<Rightarrow> (cache, refs)
      | None \<Rightarrow> fetchWorkRefs_settle cache workId outcome)"

text \<open>
  The part of the page the modelled functions write. The sections of the tab are DOM
  elements: \<open>elements\<close> holds every section made so far (an element's identity is its
  index), \<open>vizViewEl\<close> the children of the tab's container, \<open>vizMessage\<close> whether the
  container shows \<^verbatim>\<open>No categories selected.\<close> Of the heat map, the bar chart of books
  and the donut only the presence is modelled.
\<close>

datatype refs_by_date = NoDatedWorks | LoadingCitations nat | Chart refs_chart

datatype viz_section =
  BibleCoverage
| MostReferencedBooks
| WorksByDate timeline
| BibleReferencesByDate refs_by_date
| CorpusByCategory

datatype work_panel = PanelUntouched | PanelLoading | CouldNotLoadWork | NoWorkRefs | WorkCards "work_ref list"

record app_state =
  vizVersion :: nat
  workRefsCache :: "(nat \<times> work_ref list) list"
  elements :: "viz_section list"
  vizViewEl :: "nat list"
  vizMessage :: bool
  activeWorkId :: "nat option"
  workRefsListEl :: work_panel

definition makeVizSection :: "viz_section \<Rightarrow> app_state \<Rightarrow> app_state" where
  "makeVizSection sec st =
     st\<lparr>elements := elements st @ [sec], vizViewEl := vizViewEl st @ [length (elements st)]\<rparr>"

text \<open>
  \<^verbatim>\<open>renderBibleRefsByDate(cats, version)\<close> up to its \<^verbatim>\<open>await\<close>: the section is made, and
  for every dated work of the checked categories \<^verbatim>\<open>fetchWorkRefs\<close> is called, which
  answers from the cache (\<open>Some refs\<close>) or starts a fetch (\<open>None\<close>). What is left to do
  after the \<^verbatim>\<open>await\<close> is the task: the version it was called with, its section, and
  the works with their citation lists or running fetches. \<open>LoadingCitations 0\<close> is the
  section without a loading line.
\<close>

record chart_task =
  task_version :: nat
  task_sec :: nat
  task_fetches :: "(work \<times> work_ref list option) list"

definition renderBibleRefsByDate_start ::
  "work list \<Rightarrow> string set \<Rightarrow> nat \<Rightarrow> app_state \<Rightarrow> app_state \<times> chart_task option" where
  "renderBibleRefsByDate_start works cats version st =
     (let sec = length (elements st);
          dated = worksWithYear works cats
      in if dated = [] then (makeVizSection (BibleReferencesByDate NoDatedWorks) st, None)
         else
           let uncachedCount =
                 length (filter (\<lambda>wk. map_of (workRefsCache st) (work_id wk) = None) dated)
           in (makeVizSection (BibleReferencesByDate (LoadingCitations uncachedCount)) st,
               Some \<lparr>task_version = version, task_sec = sec,
                      task_fetches =
                        map (\<lambda>wk. (wk, map_of (workRefsCache st) (work_id wk))) dated\<rparr>))"

text \<open>
  The rest of \<^verbatim>\<open>renderBibleRefsByDate\<close>, run when every fetch has settled: the fetches
  write the cache, then the version is compared, and only a task of the current version
  draws into its section. \<open>outcomes\<close> gives the outcome of the fetch of each work id.
  The cache writes of the task's fetches are gathered in \<open>settleAll\<close>, in the order of
  the works; each writes under its own work id, before the version is looked at.
\<close>

fun settleAll ::
  "(work \<times> work_ref list option) list \<Rightarrow> (nat \<Rightarrow> manuscript fetched) \<Rightarrow> (nat \<times> work_ref list) list
    \<Rightarrow> (nat \<times> work_ref list) list \<times> work_data list" where
  "settleAll [] outcomes cache = (cache, [])"
| "settleAll ((wk, slot) # rest) outcomes cache =
     (let (cache1, refs) =
            (case slot of
               Some refs \<Rightarrow> (cache, refs)
             | None \<Rightarrow> fetchWorkRefs_settle cache (work_id wk) (outcomes (work_id wk)));
          (cache2, workRefsData) = settleAll rest outcomes cache1
      in (cache2, \<lparr>data_work = wk, groupCounts = groupCountsOf refs\<rparr> # workRefsData))"

definition renderBibleRefsByDate_resume ::
  "chart_task \<Rightarrow> (nat \<Rightarrow> manuscript fetched) \<Rightarrow> app_state \<Rightarrow> app_state" where
  "renderBibleRefsByDate_resume task outcomes st =
     (let (cache, workRefsData) = settleAll (task_fetches task) outcomes (workRefsCache st);
          st1 = st\<lparr>workRefsCache := cache\<rparr>
      in if vizVersion st1 \<noteq> task_version task then st1
         else st1\<lparr>elements := (elements st1)
                  [task_sec task :=
                     BibleReferencesByDate
                       (Chart (refsByDateChart (map fst (task_fetches task)) workRefsData))]\<rparr>)"

text \<open>\<^verbatim>\<open>renderVizTab()\<close>, with the checked categories \<^verbatim>\<open>cats\<close> read from the page.\<close>

definition renderVizTab ::
  "work list \<Rightarrow> string set \<Rightarrow> app_state \<Rightarrow> app_state \<times> chart_task option" where
  "renderVizTab works cats st =
     (let version = vizVersion st + 1;
          st1 = st\<lparr>vizViewEl := [], vizMessage := False, vizVersion := version\<rparr>
      in if cats = {} then (st1\<lparr>vizMessage := True\<rparr>, None)
         else
           let st2 = makeVizSection (WorksByDate (renderWorksTimeline works cats))
                       (makeVizSection MostReferencedBooks (makeVizSection BibleCoverage st1));
               (st3, task) = renderBibleRefsByDate_start works cats version st2
           in (makeVizSection CorpusByCategory st3, task))"

text \<open>
  \<^verbatim>\<open>loadWork(workId)\<close> up to the fetch, and after it. (The wait for the passages between
  the fetch and \<^verbatim>\<open>renderWork\<close> is not modelled.)
\<close>

definition loadWork_start :: "nat \<Rightarrow> app_state \<Rightarrow> app_state" where
  "loadWork_start workId st = st\<lparr>activeWorkId := Some workId, workRefsListEl := PanelLoading\<rparr>"

definition loadWork_resume :: "manuscript fetched \<Rightarrow> app_state \<Rightarrow> app_state" where
  "loadWork_resume outcome st =
     (case outcome of
        Rejected \<Rightarrow> st\<lparr>workRefsListEl := CouldNotLoadWork\<rparr>
      | Resolved data \<Rightarrow>
          st\<lparr>workRefsListEl := (if ms_refs data = [] then NoWorkRefs else WorkCards (ms_refs data))\<rparr>)"

text \<open>
  What can happen, in any order: the tab is rendered (a filter changed or the tab was
  opened), a chart task is resumed, a work is opened, and its fetch settles.
\<close>

datatype event =
  RenderVizTab "string set"
| ResumeChart chart_task "nat \<Rightarrow> manuscript fetched"
| LoadWork nat
| ResumeWork "manuscript fetched"

fun step :: "work list \<Rightarrow> event \<Rightarrow> app_state \<Rightarrow> app_state" where
  "step works (RenderVizTab cats) st = fst (renderVizTab works cats st)"
| "step works (ResumeChart task outcomes) st = renderBibleRefsByDate_resume task outcomes st"
| "step works (LoadWork workId) st = loadWork_start workId st"
| "step works (ResumeWork outcome) st = loadWork_resume outcome st"

definition run :: "work list \<Rightarrow> event list \<Rightarrow> app_state \<Rightarrow> app_state" where
  "run works evs st = fold (step works) evs st"

definition initial_state :: app_state where
  "initial_state =
     \<lparr>vizVersion = 0, workRefsCache = [], elements = [], vizViewEl = [], vizMessage = False,
      activeWorkId = None, workRefsListEl = PanelUntouched\<rparr>"

subsection \<open>Generations of the chart\<close>

lemma makeVizSection_fields:
  "vizVersion (makeVizSection sec st) = vizVersion st"
  "workRefsCache (makeVizSection sec st) = workRefsCache st"
  "elements (makeVizSection sec st) = elements st @ [sec]"
  "vizViewEl (makeVizSection sec st) = vizViewEl st @ [length (elements st)]"
  "vizMessage (makeVizSection sec st) = vizMessage st"
  by (simp_all add: makeVizSection_def)

lemma renderBibleRefsByDate_start_state:
  "\<exists>r. fst (renderBibleRefsByDate_start works cats version st) =
         makeVizSection (BibleReferencesByDate r) st"
  by (auto simp: renderBibleRefsByDate_start_def Let_def)

lemma renderBibleRefsByDate_start_task:
  "snd (renderBibleRefsByDate_start works cats version st) = Some task \<Longrightarrow>
     task_version task = version \<and> task_sec task = length (elements st) \<and>
     task_fetches task =
       map (\<lambda>wk. (wk, map_of (workRefsCache st) (work_id wk))) (worksWithYear works cats)"
  by (auto simp: renderBibleRefsByDate_start_def Let_def split: if_splits)

lemma renderVizTab_version: "vizVersion (fst (renderVizTab works cats st)) = vizVersion st + 1"
proof (cases "cats = {}")
  case True
  then show ?thesis by (simp add: renderVizTab_def Let_def)
next
  case False
  obtain r where "fst (renderBibleRefsByDate_start works cats (vizVersion st + 1)
      (makeVizSection (WorksByDate (renderWorksTimeline works cats))
        (makeVizSection MostReferencedBooks (makeVizSection BibleCoverage
          (st\<lparr>vizViewEl := [], vizMessage := False, vizVersion := vizVersion st + 1\<rparr>))))) =
      makeVizSection (BibleReferencesByDate r)
        (makeVizSection (WorksByDate (renderWorksTimeline works cats))
          (makeVizSection MostReferencedBooks (makeVizSection BibleCoverage
            (st\<lparr>vizViewEl := [], vizMessage := False, vizVersion := vizVersion st + 1\<rparr>))))"
    using renderBibleRefsByDate_start_state by blast
  with False show ?thesis
    by (simp add: renderVizTab_def Let_def split_beta makeVizSection_fields)
qed

lemma renderVizTab_task:
  assumes "snd (renderVizTab works cats st) = Some task"
  shows "task_version task = vizVersion st + 1"
    and "task_fetches task =
       map (\<lambda>wk. (wk, map_of (workRefsCache st) (work_id wk))) (worksWithYear works cats)"
proof -
  from assms have ne: "cats \<noteq> {}"
    by (auto simp: renderVizTab_def Let_def)
  with assms have "snd (renderBibleRefsByDate_start works cats (vizVersion st + 1)
      (makeVizSection (WorksByDate (renderWorksTimeline works cats))
        (makeVizSection MostReferencedBooks (makeVizSection BibleCoverage
          (st\<lparr>vizViewEl := [], vizMessage := False, vizVersion := vizVersion st + 1\<rparr>))))) = Some task"
    by (simp add: renderVizTab_def Let_def split_beta)
  from renderBibleRefsByDate_start_task [OF this]
  show "task_version task = vizVersion st + 1"
    and "task_fetches task =
       map (\<lambda>wk. (wk, map_of (workRefsCache st) (work_id wk))) (worksWithYear works cats)"
    by (simp_all add: makeVizSection_fields)
qed

lemma resume_stale:
  "task_version task \<noteq> vizVersion st \<Longrightarrow>
     renderBibleRefsByDate_resume task outcomes st =
       st\<lparr>workRefsCache := fst (settleAll (task_fetches task) outcomes (workRefsCache st))\<rparr>"
  by (simp add: renderBibleRefsByDate_resume_def Let_def split_beta)

lemma resume_current:
  "task_version task = vizVersion st \<Longrightarrow>
     renderBibleRefsByDate_resume task outcomes st =
       st\<lparr>workRefsCache := fst (settleAll (task_fetches task) outcomes (workRefsCache st)),
          elements := (elements st)
            [task_sec task :=
               BibleReferencesByDate
                 (Chart (refsByDateChart (map fst (task_fetches task))
                    (snd (settleAll (task_fetches task) outcomes (workRefsCache st)))))]\<rparr>"
  by (simp add: renderBibleRefsByDate_resume_def Let_def split_beta)

lemma resume_version: "vizVersion (renderBibleRefsByDate_resume task outcomes st) = vizVersion st"
  by (simp add: renderBibleRefsByDate_resume_def Let_def split_beta)

lemma step_version: "vizVersion st \<le> vizVersion (step works ev st)"
  by (cases ev)
    (simp_all add: renderVizTab_version resume_version loadWork_start_def loadWork_resume_def
      split: fetched.splits)

lemma run_version: "vizVersion st \<le> vizVersion (run works evs st)"
proof (induction evs arbitrary: st)
  case Nil
  then show ?case by (simp add: run_def)
next
  case (Cons ev evs)
  have "vizVersion st \<le> vizVersion (step works ev st)"
    by (rule step_version)
  also have "\<dots> \<le> vizVersion (run works evs (step works ev st))"
    by (rule Cons.IH)
  finally show ?case by (simp add: run_def)
qed

text \<open>
  Claim C8. Every call of \<open>renderVizTab\<close> raises the generation number by one and tags
  the chart task it starts with the new number; no event lowers the number. A task
  whose number is not the current one draws nothing when it is resumed: the sections,
  the children of the tab and the number stay as they are (only the cache of citation
  lists is filled). So when the task of a generation is resumed after a later
  generation has started, whatever happened in between, it leaves the later
  generation's output untouched; a task of the current generation draws its chart into
  its own section.
\<close>

theorem stale_chart_discarded:
  "vizVersion (fst (renderVizTab works cats st)) = vizVersion st + 1 \<and>
   (snd (renderVizTab works cats st) = Some task \<longrightarrow>
      task_version task = vizVersion (fst (renderVizTab works cats st))) \<and>
   vizVersion st \<le> vizVersion (run works evs st) \<and>
   (task_version task' \<noteq> vizVersion st' \<longrightarrow>
      elements (renderBibleRefsByDate_resume task' outcomes st') = elements st' \<and>
      vizViewEl (renderBibleRefsByDate_resume task' outcomes st') = vizViewEl st' \<and>
      vizMessage (renderBibleRefsByDate_resume task' outcomes st') = vizMessage st' \<and>
      vizVersion (renderBibleRefsByDate_resume task' outcomes st') = vizVersion st') \<and>
   (task_version task' = vizVersion st' \<and> task_sec task' < length (elements st') \<longrightarrow>
      (\<exists>chart. elements (renderBibleRefsByDate_resume task' outcomes st') ! task_sec task' =
         BibleReferencesByDate (Chart chart))) \<and>
   (snd (renderVizTab works cats1 st) = Some task1 \<longrightarrow>
      task_version task1 <
        vizVersion (run works evs2 (fst (renderVizTab works cats2
          (run works evs1 (fst (renderVizTab works cats1 st)))))) \<and>
      elements (renderBibleRefsByDate_resume task1 outcomes
          (run works evs2 (fst (renderVizTab works cats2
            (run works evs1 (fst (renderVizTab works cats1 st))))))) =
        elements (run works evs2 (fst (renderVizTab works cats2
            (run works evs1 (fst (renderVizTab works cats1 st)))))) \<and>
      vizViewEl (renderBibleRefsByDate_resume task1 outcomes
          (run works evs2 (fst (renderVizTab works cats2
            (run works evs1 (fst (renderVizTab works cats1 st))))))) =
        vizViewEl (run works evs2 (fst (renderVizTab works cats2
            (run works evs1 (fst (renderVizTab works cats1 st)))))))"
proof -
  have tag: "task_version task = vizVersion (fst (renderVizTab works cats st))"
    if "snd (renderVizTab works cats st) = Some task"
    using renderVizTab_task(1) [OF that] by (simp add: renderVizTab_version)
  have stale: "elements (renderBibleRefsByDate_resume t outcomes s) = elements s \<and>
      vizViewEl (renderBibleRefsByDate_resume t outcomes s) = vizViewEl s \<and>
      vizMessage (renderBibleRefsByDate_resume t outcomes s) = vizMessage s \<and>
      vizVersion (renderBibleRefsByDate_resume t outcomes s) = vizVersion s"
    if "task_version t \<noteq> vizVersion s" for t s
    by (simp add: resume_stale [OF that])
  have current: "\<exists>chart. elements (renderBibleRefsByDate_resume task' outcomes st') ! task_sec task' =
         BibleReferencesByDate (Chart chart)"
    if "task_version task' = vizVersion st' \<and> task_sec task' < length (elements st')"
    using that by (simp add: resume_current)
  have later: "task_version task1 <
        vizVersion (run works evs2 (fst (renderVizTab works cats2
          (run works evs1 (fst (renderVizTab works cats1 st))))))"
    if "snd (renderVizTab works cats1 st) = Some task1"
  proof -
    let ?st1 = "fst (renderVizTab works cats1 st)"
    let ?st2 = "fst (renderVizTab works cats2 (run works evs1 ?st1))"
    have "task_version task1 = vizVersion ?st1"
      using renderVizTab_task(1) [OF that] by (simp add: renderVizTab_version)
    also have "\<dots> \<le> vizVersion (run works evs1 ?st1)"
      by (rule run_version)
    also have "\<dots> < vizVersion ?st2"
      by (simp add: renderVizTab_version)
    also have "\<dots> \<le> vizVersion (run works evs2 ?st2)"
      by (rule run_version)
    finally show ?thesis .
  qed
  have later_stale: "task_version task1 \<noteq>
        vizVersion (run works evs2 (fst (renderVizTab works cats2
          (run works evs1 (fst (renderVizTab works cats1 st))))))"
    if "snd (renderVizTab works cats1 st) = Some task1"
    using later [OF that] by simp
  from renderVizTab_version [of works cats st] tag run_version [of st works evs]
    stale [of task' st'] current later stale [OF later_stale]
  show ?thesis
    by blast
qed

text \<open>
  The theorem at the example index: the tab is rendered with \<^verbatim>\<open>Fathers\<close> checked
  (generation 1, three fetches started), then with \<^verbatim>\<open>Other\<close> checked (generation 2).
  Resumed after that, the task of generation 1 leaves the sections as they are; resumed
  before it, the same task draws its chart into its section, the fourth of the tab.
\<close>

definition example_task :: chart_task where
  "example_task =
     \<lparr>task_version = 1, task_sec = 3,
      task_fetches =
        [(\<lparr>work_id = 1, year = Some 1900, category = Some ''Fathers''\<rparr>, None),
         (\<lparr>work_id = 2, year = Some 100, category = Some ''Fathers''\<rparr>, None),
         (\<lparr>work_id = 5, year = Some 397, category = Some ''Fathers''\<rparr>, None)]\<rparr>"

definition example_outcomes :: "nat \<Rightarrow> manuscript fetched" where
  "example_outcomes i = Resolved \<lparr>ms_title = ''a work'', ms_refs = example_citations i\<rparr>"

lemma example_first_render:
  "snd (renderVizTab example_index {''Fathers''} initial_state) = Some example_task"
  by code_simp

theorem stale_chart_discarded_witness:
  "snd (renderVizTab example_index {''Fathers''} initial_state) = Some example_task \<and>
   task_version example_task = 1 \<and>
   vizVersion (fst (renderVizTab example_index {''Other''}
       (fst (renderVizTab example_index {''Fathers''} initial_state)))) = 2 \<and>
   elements (renderBibleRefsByDate_resume example_task example_outcomes
       (fst (renderVizTab example_index {''Other''}
          (fst (renderVizTab example_index {''Fathers''} initial_state))))) =
     elements (fst (renderVizTab example_index {''Other''}
          (fst (renderVizTab example_index {''Fathers''} initial_state)))) \<and>
   elements (renderBibleRefsByDate_resume example_task example_outcomes
       (fst (renderVizTab example_index {''Fathers''} initial_state))) ! 3 =
     BibleReferencesByDate (Chart (StackedBars 200 example_bars
       [''Pentateuch'', ''Poetic'', ''Deuterocanon'', ''Gospels'', ''Revelation'']))"
proof -
  have v1: "task_version example_task = 1"
    by (simp add: example_task_def)
  have v2: "vizVersion (fst (renderVizTab example_index {''Other''}
       (fst (renderVizTab example_index {''Fathers''} initial_state)))) = 2"
    by code_simp
  have drawn: "elements (renderBibleRefsByDate_resume example_task example_outcomes
       (fst (renderVizTab example_index {''Fathers''} initial_state))) ! 3 =
     BibleReferencesByDate (Chart (StackedBars 200 example_bars
       [''Pentateuch'', ''Poetic'', ''Deuterocanon'', ''Gospels'', ''Revelation'']))"
    by code_simp
  from stale_chart_discarded [where works = example_index and ?cats1.0 = "{''Fathers''}"
      and st = initial_state and ?task1.0 = example_task and ?evs1.0 = "[]"
      and ?cats2.0 = "{''Other''}" and ?evs2.0 = "[]" and outcomes = example_outcomes]
    example_first_render
  have "elements (renderBibleRefsByDate_resume example_task example_outcomes
       (run example_index [] (fst (renderVizTab example_index {''Other''}
          (run example_index [] (fst (renderVizTab example_index {''Fathers''} initial_state))))))) =
     elements (run example_index [] (fst (renderVizTab example_index {''Other''}
          (run example_index [] (fst (renderVizTab example_index {''Fathers''} initial_state))))))"
    by blast
  then have "elements (renderBibleRefsByDate_resume example_task example_outcomes
       (fst (renderVizTab example_index {''Other''}
          (fst (renderVizTab example_index {''Fathers''} initial_state))))) =
     elements (fst (renderVizTab example_index {''Other''}
          (fst (renderVizTab example_index {''Fathers''} initial_state))))"
    by (simp add: run_def)
  with example_first_render v1 v2 drawn show ?thesis by blast
qed

subsection \<open>A fetch that fails\<close>

text \<open>The citation list a chart task ends up with for one work.\<close>

definition slotRefs :: "(nat \<Rightarrow> manuscript fetched) \<Rightarrow> work \<times> work_ref list option \<Rightarrow> work_ref list" where
  "slotRefs outcomes f =
     (case snd f of
        Some refs \<Rightarrow> refs
      | None \<Rightarrow> (case outcomes (work_id (fst f)) of Resolved data \<Rightarrow> ms_refs data | Rejected \<Rightarrow> []))"

lemma settleAll_data:
  "snd (settleAll fetches outcomes cache) =
     map (\<lambda>f. \<lparr>data_work = fst f, groupCounts = groupCountsOf (slotRefs outcomes f)\<rparr>) fetches"
proof (induction fetches arbitrary: cache)
  case Nil
  then show ?case by simp
next
  case (Cons f fetches)
  obtain wk slot where f: "f = (wk, slot)" by (cases f)
  show ?case
    unfolding f
    by (cases slot; cases "outcomes (work_id wk)")
      (simp_all add: split_beta Cons.IH slotRefs_def fetchWorkRefs_settle_def)
qed

lemma settleAll_cache_other:
  "\<forall>f\<in>set fetches. snd f = None \<longrightarrow> work_id (fst f) \<noteq> other \<Longrightarrow>
     map_of (fst (settleAll fetches outcomes cache)) other = map_of cache other"
proof (induction fetches arbitrary: cache)
  case Nil
  then show ?case by simp
next
  case (Cons f fetches)
  obtain wk slot where f: "f = (wk, slot)" by (cases f)
  from Cons.prems have rest: "\<forall>f\<in>set fetches. snd f = None \<longrightarrow> work_id (fst f) \<noteq> other"
    by simp
  show ?case
  proof (cases slot)
    case (Some refs)
    with Cons.IH [OF rest] show ?thesis
      by (simp add: f split_beta)
  next
    case None
    with Cons.prems f have "work_id wk \<noteq> other" by simp
    with None Cons.IH [OF rest] show ?thesis
      by (cases "outcomes (work_id wk)")
        (simp_all add: f split_beta fetchWorkRefs_settle_def map_of_map_set)
  qed
qed

lemma fetchWorkRefs_other:
  "other \<noteq> workId \<Longrightarrow> map_of (fst (fetchWorkRefs cache workId outcome)) other = map_of cache other"
  by (cases outcome)
    (simp_all add: fetchWorkRefs_def fetchWorkRefs_settle_def map_of_map_set split: option.splits)

lemma fetchWorkRefs_rejected:
  "map_of cache workId = None \<Longrightarrow>
     fetchWorkRefs cache workId Rejected = (map_set cache workId [], [])"
  by (simp add: fetchWorkRefs_def fetchWorkRefs_settle_def)

lemma fetchWorkRefs_after_rejected:
  "map_of cache workId = None \<Longrightarrow>
     fetchWorkRefs (fst (fetchWorkRefs cache workId Rejected)) workId outcome =
       (fst (fetchWorkRefs cache workId Rejected), [])"
  by (simp add: fetchWorkRefs_rejected) (simp add: fetchWorkRefs_def map_of_map_set)

text \<open>
  Claim C2, as the code has it. When the fetch of one work fails inside
  \<open>fetchWorkRefs\<close>, the failure is not reported: the caller gets the empty citation
  list, and the empty list is stored in the shared cache under that work id, so that
  later calls for the id answer with it and fetch nothing. The failure stays with that
  key: the cache entry of every other id is as before, the citation data a chart task
  gets for a work depends on that work's own cache slot and fetch only (a failed one
  counts as no citations), and a task of the current generation draws its chart
  whatever the outcomes. When the fetch fails in \<open>loadWork\<close>, the work panel shows
  \<^verbatim>\<open>Could not load work data\<close> and nothing else of the page changes.
\<close>

theorem fetch_failure_scoped:
  "(map_of cache workId = None \<longrightarrow>
      fetchWorkRefs cache workId Rejected = (map_set cache workId [], []) \<and>
      fetchWorkRefs (fst (fetchWorkRefs cache workId Rejected)) workId outcome =
        (fst (fetchWorkRefs cache workId Rejected), [])) \<and>
   (other \<noteq> workId \<longrightarrow>
      map_of (fst (fetchWorkRefs cache workId outcome)) other = map_of cache other) \<and>
   ((\<forall>f\<in>set fetches. snd f = None \<longrightarrow> work_id (fst f) \<noteq> other) \<longrightarrow>
      map_of (fst (settleAll fetches outcomes cache)) other = map_of cache other) \<and>
   snd (settleAll fetches outcomes cache) =
     map (\<lambda>f. \<lparr>data_work = fst f, groupCounts = groupCountsOf (slotRefs outcomes f)\<rparr>) fetches \<and>
   (snd f = None \<and> outcomes (work_id (fst f)) = Rejected \<longrightarrow> slotRefs outcomes f = []) \<and>
   (task_version task = vizVersion st \<and> task_sec task < length (elements st) \<longrightarrow>
      elements (renderBibleRefsByDate_resume task outcomes st) ! task_sec task =
        BibleReferencesByDate
          (Chart (refsByDateChart (map fst (task_fetches task))
             (map (\<lambda>f. \<lparr>data_work = fst f, groupCounts = groupCountsOf (slotRefs outcomes f)\<rparr>)
                (task_fetches task))))) \<and>
   loadWork_resume Rejected st = st\<lparr>workRefsListEl := CouldNotLoadWork\<rparr>"
proof -
  have failed: "fetchWorkRefs cache workId Rejected = (map_set cache workId [], []) \<and>
      fetchWorkRefs (fst (fetchWorkRefs cache workId Rejected)) workId outcome =
        (fst (fetchWorkRefs cache workId Rejected), [])"
    if "map_of cache workId = None"
    using fetchWorkRefs_rejected [OF that] fetchWorkRefs_after_rejected [OF that] by blast
  have slot: "slotRefs outcomes f = []"
    if "snd f = None \<and> outcomes (work_id (fst f)) = Rejected"
    using that by (simp add: slotRefs_def)
  have drawn: "elements (renderBibleRefsByDate_resume task outcomes st) ! task_sec task =
        BibleReferencesByDate
          (Chart (refsByDateChart (map fst (task_fetches task))
             (map (\<lambda>f. \<lparr>data_work = fst f, groupCounts = groupCountsOf (slotRefs outcomes f)\<rparr>)
                (task_fetches task))))"
    if "task_version task = vizVersion st \<and> task_sec task < length (elements st)"
    using that by (simp add: resume_current settleAll_data)
  have panel: "loadWork_resume Rejected st = st\<lparr>workRefsListEl := CouldNotLoadWork\<rparr>"
    by (simp add: loadWork_resume_def)
  from failed fetchWorkRefs_other [of other workId cache outcome]
    settleAll_cache_other [of fetches other outcomes cache]
    settleAll_data [of fetches outcomes cache] slot drawn panel
  show ?thesis by blast
qed

text \<open>
  The theorem at an empty cache and work 7, and at the example task with the fetch of
  work 2 failing: the chart is drawn, with an empty bar for the bucket of work 2.
\<close>

definition example_one_failure :: "nat \<Rightarrow> manuscript fetched" where
  "example_one_failure i = (if i = 2 then Rejected else example_outcomes i)"

theorem fetch_failure_scoped_witness:
  "fetchWorkRefs [] 7 Rejected = ([(7, [])], []) \<and>
   map_of (fst (fetchWorkRefs [(3, [\<lparr>book_slug = ''john''\<rparr>])] 7 Rejected)) 3 =
     Some [\<lparr>book_slug = ''john''\<rparr>] \<and>
   elements (renderBibleRefsByDate_resume example_task example_one_failure
       (fst (renderVizTab example_index {''Fathers''} initial_state))) ! 3 =
     BibleReferencesByDate (Chart (StackedBars 200
       [(\<lparr>bucket_b = 0, worksCount = 1, groupTotals = [], total = 0\<rparr>, []),
        (\<lparr>bucket_b = 200, worksCount = 1, groupTotals = [(''Poetic'', 1)], total = 1\<rparr>,
         [(''Poetic'', 1)]),
        (\<lparr>bucket_b = 1800, worksCount = 1,
           groupTotals = [(''Revelation'', 1), (''Pentateuch'', 1), (''Deuterocanon'', 1)],
           total = 3\<rparr>,
         [(''Pentateuch'', 1), (''Deuterocanon'', 1), (''Revelation'', 1)])]
       [''Pentateuch'', ''Poetic'', ''Deuterocanon'', ''Revelation''])) \<and>
   workRefsListEl (loadWork_resume Rejected (loadWork_start 7 initial_state)) = CouldNotLoadWork"
proof -
  have miss: "map_of ([] :: (nat \<times> work_ref list) list) 7 = None"
    by simp
  have cur: "task_version example_task =
      vizVersion (fst (renderVizTab example_index {''Fathers''} initial_state)) \<and>
      task_sec example_task <
        length (elements (fst (renderVizTab example_index {''Fathers''} initial_state)))"
    by code_simp
  have chart: "refsByDateChart (map fst (task_fetches example_task))
      (map (\<lambda>f. \<lparr>data_work = fst f, groupCounts = groupCountsOf (slotRefs example_one_failure f)\<rparr>)
         (task_fetches example_task)) =
     StackedBars 200
       [(\<lparr>bucket_b = 0, worksCount = 1, groupTotals = [], total = 0\<rparr>, []),
        (\<lparr>bucket_b = 200, worksCount = 1, groupTotals = [(''Poetic'', 1)], total = 1\<rparr>,
         [(''Poetic'', 1)]),
        (\<lparr>bucket_b = 1800, worksCount = 1,
           groupTotals = [(''Revelation'', 1), (''Pentateuch'', 1), (''Deuterocanon'', 1)],
           total = 3\<rparr>,
         [(''Pentateuch'', 1), (''Deuterocanon'', 1), (''Revelation'', 1)])]
       [''Pentateuch'', ''Poetic'', ''Deuterocanon'', ''Revelation'']"
    by code_simp
  note inst = fetch_failure_scoped [where cache = "[]" and workId = 7 and outcome = Rejected
      and other = 3 and fetches = "[]" and outcomes = example_one_failure
      and task = example_task
      and st = "fst (renderVizTab example_index {''Fathers''} initial_state)"]
  from inst miss have a: "fetchWorkRefs [] 7 Rejected = (map_set [] 7 [], [])"
    by blast
  from inst cur have c: "elements (renderBibleRefsByDate_resume example_task example_one_failure
       (fst (renderVizTab example_index {''Fathers''} initial_state))) ! task_sec example_task =
     BibleReferencesByDate
          (Chart (refsByDateChart (map fst (task_fetches example_task))
             (map (\<lambda>f. \<lparr>data_work = fst f, groupCounts = groupCountsOf (slotRefs example_one_failure f)\<rparr>)
                (task_fetches example_task))))"
    by blast
  have sec: "task_sec example_task = 3"
    by (simp add: example_task_def)
  have b: "map_of (fst (fetchWorkRefs [(3, [\<lparr>book_slug = ''john''\<rparr>])] 7 Rejected)) 3 =
     Some [\<lparr>book_slug = ''john''\<rparr>]"
    using fetch_failure_scoped [where cache = "[(3, [\<lparr>book_slug = ''john''\<rparr>])]" and workId = 7
        and outcome = Rejected and other = 3]
    by simp
  have d: "workRefsListEl (loadWork_resume Rejected (loadWork_start 7 initial_state)) = CouldNotLoadWork"
    by (simp add: loadWork_resume_def)
  from a b c d show ?thesis
    unfolding chart sec by simp
qed

text \<open>
  As the claim is worded it fails in \<open>fetchWorkRefs\<close>. With an empty cache and the
  fetch of work 7 failing, the call returns what it returns for a work without
  citations (the failure is not reported), the cache holds the empty list for 7, and a
  later call for 7 whose fetch would succeed with a citation still answers with the
  empty list. With every fetch of the example task failing, the section shows the
  chart's \<^verbatim>\<open>No data.\<close>, as for works without citations, and no message that a work
  could not be loaded.
\<close>

definition all_rejected :: "nat \<Rightarrow> manuscript fetched" where
  "all_rejected i = Rejected"

theorem fetch_failure_cached_counterexample:
  "fetchWorkRefs [] 7 Rejected = ([(7, [])], []) \<and>
   fetchWorkRefs [] 7 Rejected = fetchWorkRefs [] 7 (Resolved \<lparr>ms_title = ''a work'', ms_refs = []\<rparr>) \<and>
   fetchWorkRefs [(7, [])] 7
       (Resolved \<lparr>ms_title = ''a work'', ms_refs = [\<lparr>book_slug = ''john''\<rparr>]\<rparr>) =
     ([(7, [])], []) \<and>
   elements (renderBibleRefsByDate_resume example_task all_rejected
       (fst (renderVizTab example_index {''Fathers''} initial_state))) ! 3 =
     BibleReferencesByDate (Chart NoData)"
  by code_simp

subsection \<open>Works without a year\<close>

lemma worksWithYear_dated:
  "worksWithYear (filter (\<lambda>wk. year wk \<noteq> None) works) cats = worksWithYear works cats"
  by (simp add: worksWithYear_def conj_commute cong: conj_cong)

lemma eraChart_dated:
  "eraChart (filter (\<lambda>wk. year wk \<noteq> None) works) cats refsOf = eraChart works cats refsOf"
  by (simp only: eraChart_def worksWithYear_dated)

lemma eraChart_count:
  assumes "eraChart works cats refsOf = StackedBars width bars legend"
  shows "sum_list (map (\<lambda>bar. worksCount (fst bar)) bars) = length (worksWithYear works cats)"
proof -
  let ?dated = "worksWithYear works cats"
  let ?ds = "workRefsDataOf works cats refsOf"
  let ?lo = "Min (yearNum ` set ?dated)"
  let ?hi = "Max (yearNum ` set ?dated)"
  have pos: "0 < width"
    unfolding eraChart_bars(2) [OF assms] by (rule BUCKET_positive)
  have years: "yearNum ` set ?dated = (\<lambda>d. yearNum (data_work d)) ` set ?ds"
    by (simp add: workRefsDataOf_def image_image)
  have fin: "finite (yearNum ` set ?dated)" by simp
  have hi: "\<forall>d\<in>set ?ds. yearNum (data_work d) \<le> ?hi"
    using years fin by (metis Max_ge imageI)
  have first: "(?lo div width) * width \<le> ?lo"
    using pos by (simp add: minus_mod_eq_div_mult [symmetric])
  have lo: "\<forall>d\<in>set ?ds. (?lo div width) * width \<le> yearNum (data_work d)"
  proof
    fix d assume "d \<in> set ?ds"
    then have "?lo \<le> yearNum (data_work d)"
      using years fin by (metis Min_le imageI)
    with first show "(?lo div width) * width \<le> yearNum (data_work d)" by simp
  qed
  have "sum_list (map (\<lambda>bar. worksCount (fst bar)) bars) = sum_list (map worksCount (map fst bars))"
    by (simp add: o_def)
  also have "\<dots> = length (filter (\<lambda>d. (?lo div width) * width \<le> yearNum (data_work d)) ?ds)"
    unfolding eraChart_bars(3) [OF assms] by (rule buildBuckets_count [OF pos hi])
  also have "\<dots> = length ?ds"
    using lo by simp
  also have "\<dots> = length ?dated"
    by (simp add: workRefsDataOf_def)
  finally show ?thesis .
qed

lemma sort_key_empty: "sort_key f xs = [] \<longleftrightarrow> xs = []"
  by (metis length_0_conv length_sort)

lemma renderWorksTimeline_cases:
  fixes works cats
  defines "undated \<equiv> length (filter (\<lambda>wk. year wk = None \<and> categoryOf wk \<in> cats) works)"
  shows "renderWorksTimeline works cats =
     (if filter (\<lambda>wk. categoryOf wk \<in> cats) works = [] then TimelineNoData
      else Timeline (sort_key yearNum (worksWithYear works cats))
             (if undated = 0 then None
              else Some (showNat undated @ '' work'' @ (if undated \<noteq> 1 then ''s'' else []) @
                         '' without a known date not shown.'')))"
proof -
  have "filter (\<lambda>wk. categoryOf wk \<in> cats) works = [] \<longleftrightarrow>
      worksWithYear works cats = [] \<and>
      filter (\<lambda>wk. year wk = None \<and> categoryOf wk \<in> cats) works = []"
    unfolding worksWithYear_def by (induction works) auto
  then show ?thesis
    by (simp add: renderWorksTimeline_def worksWithYear_def undated_def Let_def sort_key_empty)
qed

lemma renderVizTab_sections:
  assumes "cats \<noteq> {}"
  shows "\<exists>r. map (\<lambda>i. elements (fst (renderVizTab works cats st)) ! i)
                (vizViewEl (fst (renderVizTab works cats st))) =
              [BibleCoverage, MostReferencedBooks, WorksByDate (renderWorksTimeline works cats),
               BibleReferencesByDate r, CorpusByCategory]"
proof -
  let ?st1 = "st\<lparr>vizViewEl := [], vizMessage := False, vizVersion := vizVersion st + 1\<rparr>"
  let ?st2 = "makeVizSection (WorksByDate (renderWorksTimeline works cats))
        (makeVizSection MostReferencedBooks (makeVizSection BibleCoverage ?st1))"
  obtain r where r: "fst (renderBibleRefsByDate_start works cats (vizVersion st + 1) ?st2) =
      makeVizSection (BibleReferencesByDate r) ?st2"
    using renderBibleRefsByDate_start_state by blast
  have "fst (renderVizTab works cats st) =
      makeVizSection CorpusByCategory (makeVizSection (BibleReferencesByDate r) ?st2)"
    using assms r by (simp add: renderVizTab_def Let_def split_beta)
  then have "map (\<lambda>i. elements (fst (renderVizTab works cats st)) ! i)
                (vizViewEl (fst (renderVizTab works cats st))) =
              [BibleCoverage, MostReferencedBooks, WorksByDate (renderWorksTimeline works cats),
               BibleReferencesByDate r, CorpusByCategory]"
    by (simp add: makeVizSection_fields nth_append)
  then show ?thesis ..
qed

text \<open>
  Claim C7. A work without a year is in no bucket of the era chart: the chart is the
  same as for the index without the undated works, every bucket counts dated works of
  the active categories only, and each dated active work is counted in exactly one
  bucket. The works without a year are reported apart, in the timeline section that
  \<open>renderVizTab\<close> puts into the same view: its note gives the number of active works
  without a year whenever there is one. So every work of an active category is either
  counted in a bucket or in that note; none is dropped without a trace.
\<close>

theorem undated_works_reported:
  "eraChart works cats refsOf = eraChart (filter (\<lambda>wk. year wk \<noteq> None) works) cats refsOf \<and>
   (eraChart works cats refsOf = StackedBars width bars legend \<longrightarrow>
      (\<forall>bar\<in>set bars.
         worksCount (fst bar) =
           length (filter (\<lambda>wk. year wk \<noteq> None \<and> categoryOf wk \<in> cats \<and>
                                 bucket_b (fst bar) \<le> yearNum wk \<and>
                                 yearNum wk < bucket_b (fst bar) + width) works)) \<and>
      sum_list (map (\<lambda>bar. worksCount (fst bar)) bars) =
        length (filter (\<lambda>wk. year wk \<noteq> None \<and> categoryOf wk \<in> cats) works)) \<and>
   renderWorksTimeline works cats =
     (if filter (\<lambda>wk. categoryOf wk \<in> cats) works = [] then TimelineNoData
      else Timeline (sort_key yearNum (worksWithYear works cats))
             (if length (filter (\<lambda>wk. year wk = None \<and> categoryOf wk \<in> cats) works) = 0 then None
              else Some (showNat (length (filter (\<lambda>wk. year wk = None \<and> categoryOf wk \<in> cats) works)) @
                         '' work'' @
                         (if length (filter (\<lambda>wk. year wk = None \<and> categoryOf wk \<in> cats) works) \<noteq> 1
                          then ''s'' else []) @
                         '' without a known date not shown.''))) \<and>
   (cats \<noteq> {} \<longrightarrow>
      (\<exists>r. map (\<lambda>i. elements (fst (renderVizTab works cats st)) ! i)
                (vizViewEl (fst (renderVizTab works cats st))) =
              [BibleCoverage, MostReferencedBooks, WorksByDate (renderWorksTimeline works cats),
               BibleReferencesByDate r, CorpusByCategory])) \<and>
   length (filter (\<lambda>wk. categoryOf wk \<in> cats) works) =
     length (filter (\<lambda>wk. year wk \<noteq> None \<and> categoryOf wk \<in> cats) works) +
     length (filter (\<lambda>wk. year wk = None \<and> categoryOf wk \<in> cats) works)"
proof -
  have same: "eraChart works cats refsOf =
      eraChart (filter (\<lambda>wk. year wk \<noteq> None) works) cats refsOf"
    by (simp only: eraChart_dated)
  have counts: "(\<forall>bar\<in>set bars.
         worksCount (fst bar) =
           length (filter (\<lambda>wk. year wk \<noteq> None \<and> categoryOf wk \<in> cats \<and>
                                 bucket_b (fst bar) \<le> yearNum wk \<and>
                                 yearNum wk < bucket_b (fst bar) + width) works)) \<and>
      sum_list (map (\<lambda>bar. worksCount (fst bar)) bars) =
        length (filter (\<lambda>wk. year wk \<noteq> None \<and> categoryOf wk \<in> cats) works)"
    if chart: "eraChart works cats refsOf = StackedBars width bars legend"
  proof
    show "\<forall>bar\<in>set bars.
         worksCount (fst bar) =
           length (filter (\<lambda>wk. year wk \<noteq> None \<and> categoryOf wk \<in> cats \<and>
                                 bucket_b (fst bar) \<le> yearNum wk \<and>
                                 yearNum wk < bucket_b (fst bar) + width) works)"
    proof
      fix bar assume "bar \<in> set bars"
      from eraChart_bucket(2) [OF chart this] show "worksCount (fst bar) =
           length (filter (\<lambda>wk. year wk \<noteq> None \<and> categoryOf wk \<in> cats \<and>
                                 bucket_b (fst bar) \<le> yearNum wk \<and>
                                 yearNum wk < bucket_b (fst bar) + width) works)"
        by (simp add: worksWithYear_def conj_commute conj_left_commute cong: conj_cong)
    qed
    from eraChart_count [OF chart] show "sum_list (map (\<lambda>bar. worksCount (fst bar)) bars) =
        length (filter (\<lambda>wk. year wk \<noteq> None \<and> categoryOf wk \<in> cats) works)"
      by (simp add: worksWithYear_def)
  qed
  have total: "length (filter (\<lambda>wk. categoryOf wk \<in> cats) works) =
     length (filter (\<lambda>wk. year wk \<noteq> None \<and> categoryOf wk \<in> cats) works) +
     length (filter (\<lambda>wk. year wk = None \<and> categoryOf wk \<in> cats) works)"
    by (induction works) auto
  from same counts renderWorksTimeline_cases [of works cats]
    renderVizTab_sections [of cats works st] total
  show ?thesis by blast
qed

text \<open>
  The theorem at the example index with \<^verbatim>\<open>Fathers\<close> checked: four works are active,
  three of them dated (one in each of the three buckets) and one without a year, which
  the note of the timeline reports.
\<close>

theorem undated_works_reported_witness:
  "eraChart example_index {''Fathers''} example_citations =
     StackedBars 200 example_bars
       [''Pentateuch'', ''Poetic'', ''Deuterocanon'', ''Gospels'', ''Revelation''] \<and>
   sum_list (map (\<lambda>bar. worksCount (fst bar)) example_bars) = 3 \<and>
   length (filter (\<lambda>wk. year wk \<noteq> None \<and> categoryOf wk \<in> {''Fathers''}) example_index) = 3 \<and>
   length (filter (\<lambda>wk. year wk = None \<and> categoryOf wk \<in> {''Fathers''}) example_index) = 1 \<and>
   length (filter (\<lambda>wk. categoryOf wk \<in> {''Fathers''}) example_index) = 4 \<and>
   renderWorksTimeline example_index {''Fathers''} =
     Timeline
       [\<lparr>work_id = 2, year = Some 100, category = Some ''Fathers''\<rparr>,
        \<lparr>work_id = 5, year = Some 397, category = Some ''Fathers''\<rparr>,
        \<lparr>work_id = 1, year = Some 1900, category = Some ''Fathers''\<rparr>]
       (Some ''1 work without a known date not shown.'')"
proof -
  have dated: "length (filter (\<lambda>wk. year wk \<noteq> None \<and> categoryOf wk \<in> {''Fathers''}) example_index) = 3"
    by code_simp
  have undated: "length (filter (\<lambda>wk. year wk = None \<and> categoryOf wk \<in> {''Fathers''}) example_index) = 1"
    by code_simp
  have line: "renderWorksTimeline example_index {''Fathers''} =
     Timeline
       [\<lparr>work_id = 2, year = Some 100, category = Some ''Fathers''\<rparr>,
        \<lparr>work_id = 5, year = Some 397, category = Some ''Fathers''\<rparr>,
        \<lparr>work_id = 1, year = Some 1900, category = Some ''Fathers''\<rparr>]
       (Some ''1 work without a known date not shown.'')"
    by code_simp
  note inst = undated_works_reported [where works = example_index and cats = "{''Fathers''}"
      and refsOf = example_citations and width = 200 and bars = example_bars
      and legend = "[''Pentateuch'', ''Poetic'', ''Deuterocanon'', ''Gospels'', ''Revelation'']"
      and st = initial_state]
  from inst example_chart have "sum_list (map (\<lambda>bar. worksCount (fst bar)) example_bars) =
      length (filter (\<lambda>wk. year wk \<noteq> None \<and> categoryOf wk \<in> {''Fathers''}) example_index)"
    by blast
  then have count: "sum_list (map (\<lambda>bar. worksCount (fst bar)) example_bars) = 3"
    by (simp only: dated)
  from inst have "length (filter (\<lambda>wk. categoryOf wk \<in> {''Fathers''}) example_index) =
     length (filter (\<lambda>wk. year wk \<noteq> None \<and> categoryOf wk \<in> {''Fathers''}) example_index) +
     length (filter (\<lambda>wk. year wk = None \<and> categoryOf wk \<in> {''Fathers''}) example_index)"
    by blast
  then have all: "length (filter (\<lambda>wk. categoryOf wk \<in> {''Fathers''}) example_index) = 4"
    by (simp only: dated undated)
  from example_chart count dated undated all line show ?thesis by blast
qed

subsection \<open>The chart that is drawn\<close>

text \<open>
  The citation list \<open>fetchWorkRefs\<close> serves for a work id, given the cache at the time
  of the call and the outcome of the fetch. A task started by \<open>renderVizTab\<close> and
  resumed in its own generation draws the era chart of the index, the checked categories
  and these citation lists.
\<close>

definition servedRefs ::
  "(nat \<times> work_ref list) list \<Rightarrow> (nat \<Rightarrow> manuscript fetched) \<Rightarrow> nat \<Rightarrow> work_ref list" where
  "servedRefs cache outcomes workId =
     (case map_of cache workId of
        Some refs \<Rightarrow> refs
      | None \<Rightarrow> (case outcomes workId of Resolved data \<Rightarrow> ms_refs data | Rejected \<Rightarrow> []))"

lemma resume_draws_eraChart:
  assumes "snd (renderVizTab works cats st) = Some task"
    and "task_version task = vizVersion st'" and "task_sec task < length (elements st')"
  shows "elements (renderBibleRefsByDate_resume task outcomes st') ! task_sec task =
     BibleReferencesByDate (Chart (eraChart works cats (servedRefs (workRefsCache st) outcomes)))"
proof -
  have fetches: "task_fetches task =
      map (\<lambda>wk. (wk, map_of (workRefsCache st) (work_id wk))) (worksWithYear works cats)"
    by (rule renderVizTab_task(2) [OF assms(1)])
  have slot: "slotRefs outcomes (wk, map_of (workRefsCache st) (work_id wk)) =
      servedRefs (workRefsCache st) outcomes (work_id wk)" for wk
    by (simp add: slotRefs_def servedRefs_def split: option.splits)
  have "refsByDateChart (map fst (task_fetches task))
      (snd (settleAll (task_fetches task) outcomes (workRefsCache st'))) =
      eraChart works cats (servedRefs (workRefsCache st) outcomes)"
    by (simp add: settleAll_data fetches eraChart_def o_def slot)
  with assms(2,3) show ?thesis
    by (simp add: resume_current)
qed

end
